theory Spec2Isabelle
  imports Main "HOL-Library.Sublist" "HOL-Library.Word" "HOL-Library.AList" "HOL-Library.Multiset"
begin

section \<open>The seeding script \<^verbatim>\<open>scripts/upload_script.py\<close>\<close>

text \<open>
  The script reads \<^verbatim>\<open>sensors.json\<close>, checks the bucket \<^verbatim>\<open>paws\<close> of a MinIO server,
  draws random months for every sensor and year, and uploads one placeholder object per
  (sensor, year, month) through a pool of eight worker threads.

  Everything the script touches outside its own code is one explicit \<open>world\<close>: the
  sensors file, the process environment, the arguments that the client's constructor
  refuses, the buckets of the server, the stream of random draws, the faults of the
  network and the choices of the thread scheduler. Each function
  of the script takes the world and returns the updated one; an uncaught exception is the
  \<open>Inl\<close> branch of a sum.
\<close>

subsection \<open>Values\<close>

text \<open>
  What \<^verbatim>\<open>json.load\<close> returns: \<^verbatim>\<open>None\<close>, a bool, an unbounded int, a 64-bit float,
  a str, a list, or a dict (an association list read with \<open>map_of\<close>, in insertion
  order). Strings are byte strings in UTF-8.
\<close>

datatype json =
    JNull
  | JBool bool
  | JInt int
  | JFloat "64 word"
  | JString string
  | JArray "json list"
  | JObject "(string \<times> json) list"

text \<open>
  The exceptions that can escape. \<open>S3Error msg\<close> stands for any \<^verbatim>\<open>Exception\<close> raised by
  a call of the MinIO client, with \<open>msg\<close> its \<^verbatim>\<open>str()\<close>.
\<close>

datatype exn =
    FileNotFoundError
  | JSONDecodeError
  | TypeError
  | KeyError
  | ValueError
  | S3Error string

text \<open>The state of \<^verbatim>\<open>sensors.json\<close>: absent, not JSON, or JSON text of a value.\<close>

datatype file_state = Missing | Malformed | Parsed json

type_synonym bytes = string

record s3_object =
  body :: bytes
  content_type :: string

text \<open>A call of the client library, as it reaches the log of the world.\<close>

datatype call =
    BucketExists string
  | MakeBucket string
  | ListObjects string
  | PutObject string string bytes nat string

type_synonym task = "json \<times> int \<times> int"

text \<open>The arguments of \<^verbatim>\<open>Minio(...)\<close>, which the client keeps.\<close>

record minio_client =
  endpoint :: string
  access_key :: "string option"
  secret_key :: "string option"
  secure :: bool

text \<open>
  The world. \<open>invalid_config\<close> says which arguments the constructor of the client
  library refuses.
\<close>

record world =
  sensors_file :: file_state
  environ :: "string \<rightharpoonup> string"
  invalid_config :: "minio_client \<Rightarrow> bool"
  buckets :: "string \<rightharpoonup> (string \<times> s3_object) list"
  faults :: "string option list"
  rng :: "nat list"
  sched :: "nat list"
  calls :: "call list"
  stdout :: "string list"

subsection \<open>Configuration\<close>

definition BUCKET_NAME :: string where
  "BUCKET_NAME = ''paws''"

definition YEARS :: "int list" where
  "YEARS = [2022, 2023, 2024, 2025]"

subsection \<open>Loading the sensors\<close>

text \<open>
  \<^verbatim>\<open>sensors = [item['id'] for item in json.load(f) if 'id' in item]\<close>

  Iterating a list gives its elements, a dict its keys, a str its characters; anything
  else is not iterable.
\<close>

fun py_iter :: "json \<Rightarrow> exn + json list" where
  "py_iter (JArray xs) = Inr xs"
| "py_iter (JObject kvs) = Inr (map (\<lambda>kv. JString (fst kv)) kvs)"
| "py_iter (JString s) = Inr (map (\<lambda>c. JString [c]) s)"
| "py_iter _ = Inl TypeError"

text \<open>
  \<^verbatim>\<open>'id' in item\<close>: key membership on a dict, substring test on a str, element
  membership on a list, a TypeError on the rest.
\<close>

fun py_contains_id :: "json \<Rightarrow> exn + bool" where
  "py_contains_id (JObject kvs) = Inr (map_of kvs ''id'' \<noteq> None)"
| "py_contains_id (JString s) = Inr (sublist ''id'' s)"
| "py_contains_id (JArray xs) = Inr (JString ''id'' \<in> set xs)"
| "py_contains_id _ = Inl TypeError"

text \<open>\<^verbatim>\<open>item['id']\<close>: only a dict can be indexed by a str.\<close>

fun py_getitem_id :: "json \<Rightarrow> exn + json" where
  "py_getitem_id (JObject kvs) =
     (case map_of kvs ''id'' of None \<Rightarrow> Inl KeyError | Some v \<Rightarrow> Inr v)"
| "py_getitem_id _ = Inl TypeError"

text \<open>The comprehension, item by item; the first exception ends it.\<close>

fun collect_ids :: "json list \<Rightarrow> exn + json list" where
  "collect_ids [] = Inr []"
| "collect_ids (item # rest) =
     (case py_contains_id item of
        Inl e \<Rightarrow> Inl e
      | Inr False \<Rightarrow> collect_ids rest
      | Inr True \<Rightarrow>
          (case py_getitem_id item of
             Inl e \<Rightarrow> Inl e
           | Inr v \<Rightarrow>
               (case collect_ids rest of
                  Inl e \<Rightarrow> Inl e
                | Inr vs \<Rightarrow> Inr (v # vs))))"

definition load_sensors :: "world \<Rightarrow> exn + json list" where
  "load_sensors w =
     (case sensors_file w of
        Missing \<Rightarrow> Inl FileNotFoundError
      | Malformed \<Rightarrow> Inl JSONDecodeError
      | Parsed j \<Rightarrow>
          (case py_iter j of
             Inl e \<Rightarrow> Inl e
           | Inr items \<Rightarrow> collect_ids items))"

text \<open>A record of the sensors file is a JSON object; it has an id when the key is there.\<close>

fun is_record :: "json \<Rightarrow> bool" where
  "is_record (JObject kvs) = True"
| "is_record _ = False"

fun has_id :: "json \<Rightarrow> bool" where
  "has_id (JObject kvs) = (map_of kvs ''id'' \<noteq> None)"
| "has_id _ = False"

fun id_of :: "json \<Rightarrow> json option" where
  "id_of (JObject kvs) = map_of kvs ''id''"
| "id_of _ = None"

subsection \<open>Formatting\<close>

text \<open>Decimal digits of a natural number, as \<^verbatim>\<open>str\<close> prints them.\<close>

definition digit_char :: "nat \<Rightarrow> char" where
  "digit_char d = ''0123456789'' ! d"

function dec_nat :: "nat \<Rightarrow> string" where
  "dec_nat n = (if n < 10 then [digit_char n] else dec_nat (n div 10) @ [digit_char (n mod 10)])"
  by pat_completeness auto
termination
  by (relation "measure (\<lambda>n. n)") auto

text \<open>\<^verbatim>\<open>f"{year}"\<close> on an int.\<close>

definition py_str_int :: "int \<Rightarrow> string" where
  "py_str_int i = (if i < 0 then CHR ''-'' # dec_nat (nat (- i)) else dec_nat (nat i))"

text \<open>
  \<^verbatim>\<open>f"{month:02d}"\<close>: the sign and the digits, filled with zeros on the left up to two
  characters.
\<close>

definition fmt_02d :: "int \<Rightarrow> string" where
  "fmt_02d i = (let s = py_str_int i in replicate (2 - length s) CHR ''0'' @ s)"

text \<open>
  \<^verbatim>\<open>f"{sensor_id}"\<close>: a str is printed as it is. How Python prints the other values
  (\<^verbatim>\<open>str\<close> of an int, a float, a list, a dict, \<^verbatim>\<open>None\<close>) is the parameter \<open>str_of\<close>.
\<close>

fun format_id :: "(json \<Rightarrow> string) \<Rightarrow> json \<Rightarrow> string" where
  "format_id str_of (JString s) = s"
| "format_id str_of v = str_of v"

text \<open>\<^verbatim>\<open>str.lower\<close> on ASCII letters; every other byte is kept.\<close>

definition lower_char :: "char \<Rightarrow> char" where
  "lower_char c =
     (case map_of (zip ''ABCDEFGHIJKLMNOPQRSTUVWXYZ'' ''abcdefghijklmnopqrstuvwxyz'') c of
        None \<Rightarrow> c
      | Some d \<Rightarrow> d)"

definition lower :: "string \<Rightarrow> string" where
  "lower s = map lower_char s"

definition print :: "string \<Rightarrow> world \<Rightarrow> world" where
  "print line w = w\<lparr>stdout := stdout w @ [line]\<rparr>"

subsection \<open>The client\<close>

text \<open>\<^verbatim>\<open>os.getenv(key, default)\<close>\<close>

definition getenv :: "(string \<rightharpoonup> string) \<Rightarrow> string \<Rightarrow> string \<Rightarrow> string" where
  "getenv env key dflt = (case env key of None \<Rightarrow> dflt | Some v \<Rightarrow> v)"

text \<open>
  The four arguments that \<^verbatim>\<open>create_minio_client\<close> gives to \<^verbatim>\<open>Minio(...)\<close>. An unset
  key is \<^verbatim>\<open>None\<close>.
\<close>

definition create_minio_client :: "(string \<rightharpoonup> string) \<Rightarrow> minio_client" where
  "create_minio_client env =
     \<lparr>endpoint = getenv env ''MINIO_ENDPOINT'' ''localhost:9000'',
      access_key = env ''MINIO_ACCESS_KEY'',
      secret_key = env ''MINIO_SECRET_KEY'',
      secure = (lower (getenv env ''MINIO_SECURE'' ''false'') = ''true'')\<rparr>"

text \<open>
  The constructor \<^verbatim>\<open>Minio(...)\<close> checks its arguments and raises ValueError on those it
  refuses (an endpoint with a path, for example); nothing catches it.
\<close>

definition minio_init :: "world \<Rightarrow> minio_client \<Rightarrow> exn + minio_client" where
  "minio_init w args = (if invalid_config w args then Inl ValueError else Inr args)"

subsection \<open>The server behind the client\<close>

text \<open>
  Every call of the client is logged and takes the next entry of \<open>faults\<close>: \<open>Some msg\<close>
  makes the call raise an exception whose text is \<open>msg\<close> (network, authentication or
  server error) and leaves the buckets alone; \<open>None\<close>, or an exhausted list, lets it
  through. A call that raises returns \<open>Inl msg\<close>.
\<close>

definition request :: "call \<Rightarrow> world \<Rightarrow> string option \<times> world" where
  "request c w =
     (case faults w of
        [] \<Rightarrow> (None, w\<lparr>calls := calls w @ [c]\<rparr>)
      | f # fs \<Rightarrow> (f, w\<lparr>faults := fs, calls := calls w @ [c]\<rparr>))"

definition bucket_exists :: "minio_client \<Rightarrow> string \<Rightarrow> world \<Rightarrow> (string + bool) \<times> world" where
  "bucket_exists client bucket w =
     (case request (BucketExists bucket) w of
        (Some msg, w1) \<Rightarrow> (Inl msg, w1)
      | (None, w1) \<Rightarrow> (Inr (buckets w1 bucket \<noteq> None), w1))"

definition make_bucket :: "minio_client \<Rightarrow> string \<Rightarrow> world \<Rightarrow> (string + unit) \<times> world" where
  "make_bucket client bucket w =
     (case request (MakeBucket bucket) w of
        (Some msg, w1) \<Rightarrow> (Inl msg, w1)
      | (None, w1) \<Rightarrow>
          (case buckets w1 bucket of
             Some objs \<Rightarrow> (Inl ''BucketAlreadyOwnedByYou'', w1)
           | None \<Rightarrow> (Inr (), w1\<lparr>buckets := (buckets w1)(bucket \<mapsto> [])\<rparr>)))"

definition list_objects :: "minio_client \<Rightarrow> string \<Rightarrow> world \<Rightarrow> (string + string list) \<times> world" where
  "list_objects client bucket w =
     (case request (ListObjects bucket) w of
        (Some msg, w1) \<Rightarrow> (Inl msg, w1)
      | (None, w1) \<Rightarrow>
          (case buckets w1 bucket of
             None \<Rightarrow> (Inl ''NoSuchBucket'', w1)
           | Some objs \<Rightarrow> (Inr (map fst objs), w1)))"

text \<open>
  \<^verbatim>\<open>put_object(bucket, name, stream, length, content_type)\<close> stores the first \<open>length\<close>
  bytes of the stream under \<open>name\<close>, replacing what was there.
\<close>

definition put_object ::
  "minio_client \<Rightarrow> string \<Rightarrow> string \<Rightarrow> bytes \<Rightarrow> nat \<Rightarrow> string \<Rightarrow> world \<Rightarrow> (string + unit) \<times> world" where
  "put_object client bucket name data len ctype w =
     (case request (PutObject bucket name data len ctype) w of
        (Some msg, w1) \<Rightarrow> (Inl msg, w1)
      | (None, w1) \<Rightarrow>
          (case buckets w1 bucket of
             None \<Rightarrow> (Inl ''NoSuchBucket'', w1)
           | Some objs \<Rightarrow>
               (Inr (),
                w1\<lparr>buckets := (buckets w1)(bucket \<mapsto>
                      AList.update name \<lparr>body = take len data, content_type = ctype\<rparr> objs)\<rparr>)))"

subsection \<open>One upload\<close>

definition filename_of :: "(json \<Rightarrow> string) \<Rightarrow> json \<Rightarrow> int \<Rightarrow> int \<Rightarrow> string" where
  "filename_of str_of sensor_id year month =
     format_id str_of sensor_id @ ''_'' @ py_str_int year @ ''_'' @ fmt_02d month @ ''.csv''"

definition upload_single ::
  "(json \<Rightarrow> string) \<Rightarrow> minio_client \<Rightarrow> json \<Rightarrow> int \<Rightarrow> int \<Rightarrow> world \<Rightarrow> bool \<times> world" where
  "upload_single str_of minio_client sensor_id year month w =
     (let filename = filename_of str_of sensor_id year month;
          data = ''test''
      in case put_object minio_client BUCKET_NAME filename data (length data) ''text/csv'' w of
           (Inr u, w1) \<Rightarrow> (True, print (''Uploaded '' @ filename) w1)
         | (Inl e, w1) \<Rightarrow> (False, print (''Failed '' @ filename @ '': '' @ e) w1))"

subsection \<open>Random months\<close>

text \<open>
  The generator is the list \<open>rng\<close> of the world: a draw takes its head (0 once the list
  is used up). \<^verbatim>\<open>random.randint(a, b)\<close> is a draw reduced into \<open>a..b\<close>;
  \<^verbatim>\<open>random.sample(population, k)\<close> takes \<open>k\<close> times an element out of what is left of
  the population, at a drawn position. Both raise ValueError where Python does.
\<close>

definition draw :: "world \<Rightarrow> nat \<times> world" where
  "draw w = (case rng w of [] \<Rightarrow> (0, w) | r # rs \<Rightarrow> (r, w\<lparr>rng := rs\<rparr>))"

definition randint :: "int \<Rightarrow> int \<Rightarrow> world \<Rightarrow> (exn + int) \<times> world" where
  "randint a b w =
     (if b < a then (Inl ValueError, w)
      else case draw w of (r, w1) \<Rightarrow> (Inr (a + int (r mod nat (b - a + 1))), w1))"

fun sample_loop :: "'a list \<Rightarrow> nat \<Rightarrow> world \<Rightarrow> 'a list \<times> world" where
  "sample_loop pop 0 w = ([], w)"
| "sample_loop pop (Suc k) w =
     (if pop = [] then ([], w)
      else case draw w of (r, w1) \<Rightarrow>
        (let i = r mod length pop in
         case sample_loop (take i pop @ drop (Suc i) pop) k w1 of
           (rest, w2) \<Rightarrow> (pop ! i # rest, w2)))"

definition sample :: "'a list \<Rightarrow> int \<Rightarrow> world \<Rightarrow> (exn + 'a list) \<times> world" where
  "sample pop k w =
     (if k < 0 \<or> int (length pop) < k then (Inl ValueError, w)
      else case sample_loop pop (nat k) w of (xs, w1) \<Rightarrow> (Inr xs, w1))"

subsection \<open>Generating the tasks\<close>

text \<open>The three nested loops of \<^verbatim>\<open>main\<close>, innermost first; \<open>tasks\<close> is the list built so far.\<close>

fun months_loop :: "json \<Rightarrow> int \<Rightarrow> int list \<Rightarrow> task list \<Rightarrow> task list" where
  "months_loop sensor_id year [] tasks = tasks"
| "months_loop sensor_id year (month # months) tasks =
     months_loop sensor_id year months (tasks @ [(sensor_id, year, month)])"

fun years_loop :: "json \<Rightarrow> int list \<Rightarrow> task list \<Rightarrow> world \<Rightarrow> (exn + task list) \<times> world" where
  "years_loop sensor_id [] tasks w = (Inr tasks, w)"
| "years_loop sensor_id (year # years) tasks w =
     (case randint 2 4 w of
        (Inl e, w1) \<Rightarrow> (Inl e, w1)
      | (Inr k, w1) \<Rightarrow>
          (case sample [1..12] k w1 of
             (Inl e, w2) \<Rightarrow> (Inl e, w2)
           | (Inr months, w2) \<Rightarrow>
               years_loop sensor_id years (months_loop sensor_id year months tasks) w2))"

fun sensors_loop :: "json list \<Rightarrow> task list \<Rightarrow> world \<Rightarrow> (exn + task list) \<times> world" where
  "sensors_loop [] tasks w = (Inr tasks, w)"
| "sensors_loop (sensor_id # sensors) tasks w =
     (case years_loop sensor_id YEARS tasks w of
        (Inl e, w1) \<Rightarrow> (Inl e, w1)
      | (Inr tasks1, w1) \<Rightarrow> sensors_loop sensors tasks1 w1)"

definition gen_tasks :: "json list \<Rightarrow> world \<Rightarrow> (exn + task list) \<times> world" where
  "gen_tasks sensors w = sensors_loop sensors [] w"

subsection \<open>The worker pool\<close>

text \<open>
  \<^verbatim>\<open>ThreadPoolExecutor(max_workers=8)\<close> starts the submitted uploads in order, at most
  eight at a time, so the uploads in flight are the first eight that have not completed.
  Which of them completes next is the scheduler's choice, the next entry of \<open>sched\<close>
  (0 once the list is used up) reduced to a position among them. An upload takes effect as a whole when it is chosen.
  The results come in the order of completion, as \<^verbatim>\<open>as_completed\<close> yields them.
\<close>

definition pick :: "world \<Rightarrow> nat \<times> world" where
  "pick w = (case sched w of [] \<Rightarrow> (0, w) | c # cs \<Rightarrow> (c, w\<lparr>sched := cs\<rparr>))"

function run_pool ::
  "(json \<Rightarrow> string) \<Rightarrow> minio_client \<Rightarrow> task list \<Rightarrow> world \<Rightarrow> bool list \<times> world" where
  "run_pool str_of client pending w =
     (if pending = [] then ([], w)
      else case pick w of (c, w1) \<Rightarrow>
        (let i = c mod min 8 (length pending) in
         case pending ! i of (sensor_id, year, month) \<Rightarrow>
          (case upload_single str_of client sensor_id year month w1 of (r, w2) \<Rightarrow>
            (case run_pool str_of client (take i pending @ drop (Suc i) pending) w2 of
               (rs, w3) \<Rightarrow> (r # rs, w3)))))"
  by pat_completeness auto
termination
proof (relation "measure (\<lambda>(str_of, client, pending, w). length pending)")
  show "wf (measure (\<lambda>(str_of, client, pending, w). length (pending :: task list)))"
    by simp
next
  fix str_of :: "json \<Rightarrow> string" and client :: minio_client and pending :: "task list"
    and w w1 w2 :: world and c i :: nat and sensor_id :: json and year month :: int and r :: bool
    and t :: task and rest :: "int \<times> int"
  assume ne: "pending \<noteq> []" and i: "i = c mod min 8 (length pending)"
  from ne have "0 < min 8 (length pending)" by simp
  then have "c mod min 8 (length pending) < min 8 (length pending)"
    by (rule mod_less_divisor)
  with i have "i < length pending" by simp
  then show "((str_of, client, take i pending @ drop (Suc i) pending, w2),
              (str_of, client, pending, w)) \<in>
             measure (\<lambda>(str_of, client, pending, w). length (pending :: task list))"
    by simp
qed

subsection \<open>The program\<close>

text \<open>
  Lines 49 to 56 of \<^verbatim>\<open>main\<close>: create the bucket when it is not there; otherwise list it
  and return from \<^verbatim>\<open>main\<close> when it holds an object. The result says whether \<^verbatim>\<open>main\<close>
  goes on.
\<close>

definition ensure_bucket :: "minio_client \<Rightarrow> world \<Rightarrow> (exn + bool) \<times> world" where
  "ensure_bucket client w =
     (case bucket_exists client BUCKET_NAME w of
        (Inl msg, w1) \<Rightarrow> (Inl (S3Error msg), w1)
      | (Inr False, w1) \<Rightarrow>
          (case make_bucket client BUCKET_NAME w1 of
             (Inl msg, w2) \<Rightarrow> (Inl (S3Error msg), w2)
           | (Inr u, w2) \<Rightarrow> (Inr True, w2))
      | (Inr True, w1) \<Rightarrow>
          (case list_objects client BUCKET_NAME w1 of
             (Inl msg, w2) \<Rightarrow> (Inl (S3Error msg), w2)
           | (Inr objects, w2) \<Rightarrow>
               (if objects \<noteq> []
                then (Inr False,
                      print (''Bucket '' @ [CHR 0x27] @ BUCKET_NAME @ [CHR 0x27] @
                             '' already contains data. Skipping upload.'') w2)
                else (Inr True, w2))))"

definition completed_line :: "nat \<Rightarrow> nat \<Rightarrow> string" where
  "completed_line successful n_tasks =
     [CHR 0x0A] @ ''Completed: '' @ dec_nat successful @ ''/'' @ dec_nat n_tasks @
     '' files uploaded''"

definition main :: "(json \<Rightarrow> string) \<Rightarrow> world \<Rightarrow> (exn + unit) \<times> world" where
  "main str_of w =
     (case load_sensors w of
        Inl e \<Rightarrow> (Inl e, w)
      | Inr sensors \<Rightarrow>
          (case minio_init w (create_minio_client (environ w)) of
             Inl e \<Rightarrow> (Inl e, w)
           | Inr client \<Rightarrow>
               (case ensure_bucket client w of
                  (Inl e, w1) \<Rightarrow> (Inl e, w1)
                | (Inr False, w1) \<Rightarrow> (Inr (), w1)
                | (Inr True, w1) \<Rightarrow>
                    (case gen_tasks sensors w1 of
                       (Inl e, w2) \<Rightarrow> (Inl e, w2)
                     | (Inr tasks, w2) \<Rightarrow>
                         (case run_pool str_of client tasks w2 of
                            (results, w3) \<Rightarrow>
                              (let successful = length (filter (\<lambda>r. r) results)
                               in (Inr (),
                                   print (completed_line successful (length tasks)) w3)))))))"

subsection \<open>Observations on a run\<close>

fun is_put :: "call \<Rightarrow> bool" where
  "is_put (PutObject b n d l c) = True"
| "is_put _ = False"

definition put_calls :: "world \<Rightarrow> call list" where
  "put_calls w = filter is_put (calls w)"

text \<open>The call that the upload of a task issues.\<close>

definition put_of :: "(json \<Rightarrow> string) \<Rightarrow> task \<Rightarrow> call" where
  "put_of str_of t =
     (case t of (sensor_id, year, month) \<Rightarrow>
        PutObject BUCKET_NAME (filename_of str_of sensor_id year month) ''test'' 4 ''text/csv'')"

text \<open>The bytes a call asks the server to store.\<close>

fun put_payload :: "call \<Rightarrow> bytes option" where
  "put_payload (PutObject b n d l c) = Some (take l d)"
| "put_payload _ = None"

text \<open>The next call of the client goes through.\<close>

definition passes :: "world \<Rightarrow> bool" where
  "passes w = (case faults w of Some msg # fs \<Rightarrow> False | _ \<Rightarrow> True)"

text \<open>Which of the next \<open>n\<close> calls go through.\<close>

definition outcomes :: "nat \<Rightarrow> string option list \<Rightarrow> bool list" where
  "outcomes n fs = map (\<lambda>f. f = None) (take n (fs @ replicate n None))"

text \<open>
  The tasks of one sensor and one year: two to four of them, all of that sensor and
  year, their months in 1 to 12 and pairwise distinct.
\<close>

definition block_ok :: "json \<Rightarrow> int \<Rightarrow> task list \<Rightarrow> bool" where
  "block_ok sensor_id year b =
     (2 \<le> length b \<and> length b \<le> 4 \<and>
      distinct (map (\<lambda>t. snd (snd t)) b) \<and>
      list_all (\<lambda>t. fst t = sensor_id \<and> fst (snd t) = year \<and>
                     1 \<le> snd (snd t) \<and> snd (snd t) \<le> 12) b)"

text \<open>The number that a string of decimal digits denotes.\<close>

definition digit_value :: "char \<Rightarrow> nat" where
  "digit_value c = of_char c - 48"

definition dec_value :: "string \<Rightarrow> nat" where
  "dec_value s = foldl (\<lambda>a c. 10 * a + digit_value c) 0 s"

text \<open>The calls that only read the state of the bucket.\<close>

definition is_check :: "call \<Rightarrow> bool" where
  "is_check c = (c = BucketExists BUCKET_NAME \<or> c = ListObjects BUCKET_NAME)"

text \<open>Between two worlds only the random generator has moved on.\<close>

definition only_rng :: "world \<Rightarrow> world \<Rightarrow> bool" where
  "only_rng w w' = (w' = w\<lparr>rng := rng w'\<rparr>)"

subsection \<open>Example worlds\<close>

text \<open>A sensors file with three records, one of them without an id.\<close>

definition example_items :: "json list" where
  "example_items =
     [JObject [(''id'', JString ''s1''), (''site'', JString ''north'')],
      JObject [(''id'', JString ''s2'')],
      JObject [(''no_id'', JString ''x'')]]"

definition example_world :: world where
  "example_world =
     \<lparr>sensors_file = Parsed (JArray example_items),
      environ = Map.empty,
      invalid_config = (\<lambda>args. False),
      buckets = Map.empty,
      faults = [],
      rng = [1, 5, 7, 3, 2],
      sched = [3, 1, 9],
      calls = [],
      stdout = []\<rparr>"

text \<open>A bucket that has been seeded already.\<close>

definition seeded_world :: world where
  "seeded_world =
     example_world\<lparr>buckets := [''paws'' \<mapsto> [(''s1_2022_01.csv'',
                       \<lparr>body = ''test'', content_type = ''text/csv''\<rparr>)]]\<rparr>"

text \<open>An empty bucket, and a network that fails the first call.\<close>

definition faulty_world :: world where
  "faulty_world =
     example_world\<lparr>buckets := [''paws'' \<mapsto> []], faults := [Some ''timed out'', None]\<rparr>"

text \<open>A missing bucket, and a network that fails the first upload.\<close>

definition lossy_world :: world where
  "lossy_world = example_world\<lparr>faults := [None, None, Some ''timed out'']\<rparr>"

text \<open>A sensors file in which the same id comes twice, and a generator that draws zeros.\<close>

definition twin_items :: "json list" where
  "twin_items =
     [JObject [(''id'', JString ''s1'')],
      JObject [(''id'', JString ''s1''), (''site'', JString ''south'')]]"

definition twin_world :: world where
  "twin_world =
     \<lparr>sensors_file = Parsed (JArray twin_items),
      environ = Map.empty,
      invalid_config = (\<lambda>args. False),
      buckets = Map.empty,
      faults = [],
      rng = [],
      sched = [],
      calls = [],
      stdout = []\<rparr>"

section \<open>Properties\<close>

declare dec_nat.simps [simp del]
declare run_pool.simps [simp del]

subsection \<open>The sensor loader\<close>

lemma collect_ids_records:
  assumes "list_all is_record items"
  shows "\<exists>sensors. collect_ids items = Inr sensors \<and>
           map Some sensors = map id_of (filter has_id items)"
  using assms
proof (induction items)
  case Nil
  then show ?case by simp
next
  case (Cons item items)
  from Cons.prems obtain kvs where item: "item = JObject kvs"
    by (cases item) simp_all
  from Cons obtain sensors where rest: "collect_ids items = Inr sensors"
    and ids: "map Some sensors = map id_of (filter has_id items)"
    by auto
  show ?case
  proof (cases "map_of kvs ''id''")
    case None
    with item rest ids show ?thesis by simp
  next
    case (Some v)
    with item rest ids show ?thesis by simp
  qed
qed

text \<open>
  C2. When the sensors file parses to a JSON array of records, the load succeeds and the
  sensor list is the sequence of the \<open>id\<close> values of the records that have the key, in
  file order; its length is the number of those records, whatever other fields they
  carry, and the records without the key are left out.
\<close>

theorem sensors_are_ids_in_file_order:
  assumes "sensors_file w = Parsed (JArray items)"
    and "list_all is_record items"
  shows "\<exists>sensors. load_sensors w = Inr sensors \<and>
           map Some sensors = map id_of (filter has_id items) \<and>
           length sensors = length (filter has_id items)"
proof -
  from collect_ids_records [OF assms(2)] obtain sensors
    where c: "collect_ids items = Inr sensors"
      and m: "map Some sensors = map id_of (filter has_id items)"
    by blast
  from m have "length (map Some sensors) = length (map id_of (filter has_id items))"
    by simp
  then have "length sensors = length (filter has_id items)" by simp
  with c m assms(1) show ?thesis by (simp add: load_sensors_def)
qed

theorem sensors_are_ids_in_file_order_witness:
  "sensors_file example_world = Parsed (JArray example_items) \<and>
   list_all is_record example_items \<and>
   load_sensors example_world = Inr [JString ''s1'', JString ''s2''] \<and>
   length (filter has_id example_items) = 2"
proof -
  have f: "sensors_file example_world = Parsed (JArray example_items)"
    by (simp add: example_world_def)
  have r: "list_all is_record example_items"
    by (simp add: example_items_def)
  have ids: "map id_of (filter has_id example_items) = [Some (JString ''s1''), Some (JString ''s2'')]"
    by (simp add: example_items_def)
  from sensors_are_ids_in_file_order [OF f r] obtain sensors
    where l: "load_sensors example_world = Inr sensors"
      and m: "map Some sensors = map id_of (filter has_id example_items)"
      and n: "length sensors = length (filter has_id example_items)"
    by blast
  from m ids have "map Some sensors = map Some [JString ''s1'', JString ''s2'']" by simp
  then have "sensors = [JString ''s1'', JString ''s2'']"
    by (simp only: inj_map_eq_map [OF inj_Some])
  with l n f r show ?thesis by simp
qed

text \<open>
  C8. When the sensors file is missing or is not JSON, \<open>main\<close> ends with the exception
  of the load (FileNotFoundError, JSONDecodeError) and the world is as it was: no call of
  the client has been made, so no bucket check and no upload.
\<close>

theorem load_failure_is_fatal:
  assumes "sensors_file w = Missing \<or> sensors_file w = Malformed"
  shows "main str_of w =
           (Inl (if sensors_file w = Missing then FileNotFoundError else JSONDecodeError), w)"
  using assms by (auto simp: main_def load_sensors_def)

theorem load_failure_is_fatal_witness:
  "sensors_file (example_world\<lparr>sensors_file := Missing\<rparr>) = Missing \<and>
   main (\<lambda>v. []) (example_world\<lparr>sensors_file := Missing\<rparr>) =
     (Inl FileNotFoundError, example_world\<lparr>sensors_file := Missing\<rparr>) \<and>
   sensors_file (example_world\<lparr>sensors_file := Malformed\<rparr>) = Malformed \<and>
   main (\<lambda>v. []) (example_world\<lparr>sensors_file := Malformed\<rparr>) =
     (Inl JSONDecodeError, example_world\<lparr>sensors_file := Malformed\<rparr>)"
  using load_failure_is_fatal [of "example_world\<lparr>sensors_file := Missing\<rparr>" "\<lambda>v. []"]
    load_failure_is_fatal [of "example_world\<lparr>sensors_file := Malformed\<rparr>" "\<lambda>v. []"]
  by simp

subsection \<open>The client\<close>

lemma lower_char_cases:
  "lower_char c = CHR ''t'' \<longleftrightarrow> c = CHR ''t'' \<or> c = CHR ''T''"
  "lower_char c = CHR ''r'' \<longleftrightarrow> c = CHR ''r'' \<or> c = CHR ''R''"
  "lower_char c = CHR ''u'' \<longleftrightarrow> c = CHR ''u'' \<or> c = CHR ''U''"
  "lower_char c = CHR ''e'' \<longleftrightarrow> c = CHR ''e'' \<or> c = CHR ''E''"
  by (auto simp: lower_char_def)

lemma lower_true:
  "lower v = ''true'' \<longleftrightarrow>
     (\<exists>a b c d. v = [a, b, c, d] \<and> a \<in> {CHR ''t'', CHR ''T''} \<and> b \<in> {CHR ''r'', CHR ''R''} \<and>
        c \<in> {CHR ''u'', CHR ''U''} \<and> d \<in> {CHR ''e'', CHR ''E''})"
proof -
  have "lower v = ''true'' \<longleftrightarrow>
      (\<exists>a b c d. v = [a, b, c, d] \<and> lower_char a = CHR ''t'' \<and> lower_char b = CHR ''r'' \<and>
         lower_char c = CHR ''u'' \<and> lower_char d = CHR ''e'')"
    by (auto simp: lower_def map_eq_Cons_conv)
  then show ?thesis by (simp add: lower_char_cases)
qed

text \<open>
  C7, as the code has it. The endpoint is \<open>MINIO_ENDPOINT\<close>, or \<open>localhost:9000\<close> when
  the variable is unset. Secure mode is off when \<open>MINIO_SECURE\<close> is unset, and otherwise
  on exactly when the value, with its letters in either case, spells \<open>true\<close>.
\<close>

theorem client_configuration:
  "endpoint (create_minio_client env) =
     (case env ''MINIO_ENDPOINT'' of None \<Rightarrow> ''localhost:9000'' | Some e \<Rightarrow> e) \<and>
   secure (create_minio_client env) =
     (case env ''MINIO_SECURE'' of
        None \<Rightarrow> False
      | Some v \<Rightarrow>
          (\<exists>a b c d. v = [a, b, c, d] \<and> a \<in> {CHR ''t'', CHR ''T''} \<and>
             b \<in> {CHR ''r'', CHR ''R''} \<and> c \<in> {CHR ''u'', CHR ''U''} \<and>
             d \<in> {CHR ''e'', CHR ''E''}))"
proof -
  have "lower ''false'' \<noteq> ''true''" by (simp add: lower_def lower_char_def)
  then show ?thesis
    by (simp add: create_minio_client_def getenv_def lower_true split: option.splits)
qed

text \<open>
  C7 as stated fails: with \<open>MINIO_SECURE=TRUE\<close> the value is not the string \<open>true\<close>,
  and secure mode is on.
\<close>

theorem secure_only_for_true_counterexample:
  "secure (create_minio_client [''MINIO_SECURE'' \<mapsto> ''TRUE'']) \<and>
   [''MINIO_SECURE'' \<mapsto> ''TRUE''] ''MINIO_SECURE'' \<noteq> Some ''true''"
  by (simp add: create_minio_client_def getenv_def lower_def lower_char_def)

subsection \<open>One upload\<close>

lemma upload_single_calls:
  "calls (snd (upload_single str_of client s y m w)) = calls w @ [put_of str_of (s, y, m)]"
  by (simp add: upload_single_def put_object_def put_of_def request_def print_def Let_def
      split: list.splits option.splits prod.splits sum.splits)

lemma upload_single_faults:
  "faults (snd (upload_single str_of client s y m w)) = tl (faults w)"
  by (simp add: upload_single_def put_object_def request_def print_def Let_def
      split: list.splits option.splits prod.splits sum.splits)

lemma upload_single_result:
  "fst (upload_single str_of client s y m w) = (passes w \<and> buckets w BUCKET_NAME \<noteq> None)"
  by (auto simp add: upload_single_def put_object_def request_def print_def passes_def Let_def
      split: list.splits option.splits prod.splits sum.splits)

lemma upload_single_rest:
  "rng (snd (upload_single str_of client s y m w)) = rng w"
  "sched (snd (upload_single str_of client s y m w)) = sched w"
  "sensors_file (snd (upload_single str_of client s y m w)) = sensors_file w"
  "environ (snd (upload_single str_of client s y m w)) = environ w"
  by (simp_all add: upload_single_def put_object_def request_def print_def Let_def
      split: list.splits option.splits prod.splits sum.splits)

lemma upload_single_failed:
  assumes "\<not> fst (upload_single str_of client s y m w)"
  shows "buckets (snd (upload_single str_of client s y m w)) = buckets w"
  using assms
  by (simp add: upload_single_def put_object_def request_def print_def Let_def
      split: list.splits option.splits prod.splits sum.splits)

lemma upload_single_stored:
  assumes "fst (upload_single str_of client s y m w)"
  shows "\<exists>objs. buckets w BUCKET_NAME = Some objs \<and>
           buckets (snd (upload_single str_of client s y m w)) =
             (buckets w)(BUCKET_NAME \<mapsto>
                AList.update (filename_of str_of s y m)
                  \<lparr>body = ''test'', content_type = ''text/csv''\<rparr> objs)"
  using assms
  by (simp add: upload_single_def put_object_def request_def print_def Let_def
      split: list.splits option.splits prod.splits sum.splits)

lemma upload_single_bucket_stays:
  "buckets w BUCKET_NAME \<noteq> None \<Longrightarrow>
   buckets (snd (upload_single str_of client s y m w)) BUCKET_NAME \<noteq> None"
  by (auto simp add: upload_single_def put_object_def request_def print_def Let_def
      split: list.splits option.splits prod.splits sum.splits)

lemma dec_nat_digit: "n < 10 \<Longrightarrow> dec_nat n = [digit_char n]"
  by (subst dec_nat.simps) simp

lemma dec_nat_two_digits:
  assumes "10 \<le> n" "n < 100"
  shows "dec_nat n = [digit_char (n div 10), digit_char (n mod 10)]"
proof -
  from assms have "n div 10 < 10" by simp
  then have "dec_nat (n div 10) = [digit_char (n div 10)]" by (rule dec_nat_digit)
  with assms show ?thesis by (subst dec_nat.simps) simp
qed

lemma fmt_02d_two_digits:
  assumes "0 \<le> m" "m < 100"
  shows "fmt_02d m = [digit_char (nat m div 10), digit_char (nat m mod 10)]"
proof (cases "m < 10")
  case True
  with assms have "dec_nat (nat m) = [digit_char (nat m)]" by (simp add: dec_nat_digit)
  with True assms show ?thesis
    by (simp add: fmt_02d_def py_str_int_def Let_def digit_char_def)
next
  case False
  with assms have "10 \<le> nat m" and "nat m < 100" by simp_all
  then have "dec_nat (nat m) = [digit_char (nat m div 10), digit_char (nat m mod 10)]"
    by (rule dec_nat_two_digits)
  with assms show ?thesis
    by (simp add: fmt_02d_def py_str_int_def Let_def)
qed

text \<open>
  C4. The upload of a task with a month from 1 to 12 issues one \<open>put_object\<close> on the bucket
  \<open>paws\<close>: the object name is the sensor, an underscore, the year, an underscore, the two
  decimal digits of the month (so a leading zero below 10) and \<open>.csv\<close>; the body has
  4 bytes and the content type is \<open>text/csv\<close>. A sensor that is a str is printed as it
  is. When the upload returns True the bucket holds that object under that name, and when
  it returns False the buckets are as before.
\<close>

theorem upload_writes_named_object:
  assumes "1 \<le> month" and "month \<le> 12"
  shows "\<exists>name.
           name = format_id str_of sensor_id @ ''_'' @ py_str_int year @ ''_'' @
                  [digit_char (nat month div 10), digit_char (nat month mod 10)] @ ''.csv'' \<and>
           format_id str_of (JString s) = s \<and>
           calls (snd (upload_single str_of client sensor_id year month w)) =
             calls w @ [PutObject ''paws'' name ''test'' 4 ''text/csv''] \<and>
           length ''test'' = 4 \<and>
           (if fst (upload_single str_of client sensor_id year month w)
            then \<exists>objs. buckets (snd (upload_single str_of client sensor_id year month w)) ''paws''
                          = Some objs \<and>
                        map_of objs name = Some \<lparr>body = ''test'', content_type = ''text/csv''\<rparr>
            else buckets (snd (upload_single str_of client sensor_id year month w)) = buckets w)"
proof -
  let ?u = "upload_single str_of client sensor_id year month w"
  from assms have pad: "fmt_02d month = [digit_char (nat month div 10), digit_char (nat month mod 10)]"
    by (simp add: fmt_02d_two_digits)
  have c: "calls (snd ?u) = calls w @ [PutObject ''paws'' (filename_of str_of sensor_id year month)
             ''test'' 4 ''text/csv'']"
    by (simp add: upload_single_calls put_of_def BUCKET_NAME_def)
  have b: "if fst ?u
           then \<exists>objs. buckets (snd ?u) ''paws'' = Some objs \<and>
                  map_of objs (filename_of str_of sensor_id year month)
                    = Some \<lparr>body = ''test'', content_type = ''text/csv''\<rparr>
           else buckets (snd ?u) = buckets w"
  proof (cases "fst ?u")
    case True
    from upload_single_stored [OF True] obtain objs where
      "buckets (snd ?u) = (buckets w)(BUCKET_NAME \<mapsto>
          AList.update (filename_of str_of sensor_id year month)
            \<lparr>body = ''test'', content_type = ''text/csv''\<rparr> objs)"
      by blast
    with True show ?thesis by (simp add: BUCKET_NAME_def update_conv')
  next
    case False
    with upload_single_failed [OF False] show ?thesis by simp
  qed
  from pad have n: "filename_of str_of sensor_id year month =
      format_id str_of sensor_id @ ''_'' @ py_str_int year @ ''_'' @
      [digit_char (nat month div 10), digit_char (nat month mod 10)] @ ''.csv''"
    by (simp add: filename_of_def)
  from c b show ?thesis unfolding n by (simp cong: if_cong)
qed

theorem upload_writes_named_object_witness:
  "(1::int) \<le> 3 \<and> (3::int) \<le> 12 \<and>
   calls (snd (upload_single (\<lambda>v. []) (create_minio_client Map.empty) (JString ''s1'') 2022 3
                 (example_world\<lparr>buckets := [''paws'' \<mapsto> []]\<rparr>))) =
     [PutObject ''paws'' ''s1_2022_03.csv'' ''test'' 4 ''text/csv''] \<and>
   fst (upload_single (\<lambda>v. []) (create_minio_client Map.empty) (JString ''s1'') 2022 3
                 (example_world\<lparr>buckets := [''paws'' \<mapsto> []]\<rparr>))"
proof -
  have y: "py_str_int 2022 = ''2022''"
    by (simp add: py_str_int_def dec_nat.simps digit_char_def)
  have f: "fst (upload_single (\<lambda>v. []) (create_minio_client Map.empty) (JString ''s1'') 2022 3
                 (example_world\<lparr>buckets := [''paws'' \<mapsto> []]\<rparr>))"
    by (simp add: upload_single_result passes_def example_world_def BUCKET_NAME_def)
  from upload_writes_named_object [of 3 "\<lambda>v. []" "JString ''s1''" 2022 "''s1''"
      "create_minio_client Map.empty" "example_world\<lparr>buckets := [''paws'' \<mapsto> []]\<rparr>"] y f
  show ?thesis by (simp add: digit_char_def example_world_def)
qed

subsection \<open>The worker pool\<close>

lemma pick_rest:
  "faults (snd (pick w)) = faults w"
  "buckets (snd (pick w)) = buckets w"
  "calls (snd (pick w)) = calls w"
  "stdout (snd (pick w)) = stdout w"
  "rng (snd (pick w)) = rng w"
  by (simp_all add: pick_def split: list.splits)

lemma run_pool_Nil: "run_pool str_of client [] w = ([], w)"
  by (subst run_pool.simps) simp

lemma run_pool_step:
  assumes "pending \<noteq> []"
  shows "run_pool str_of client pending w =
     (let i = fst (pick w) mod min 8 (length pending);
          t = pending ! i;
          u = upload_single str_of client (fst t) (fst (snd t)) (snd (snd t)) (snd (pick w));
          p = run_pool str_of client (take i pending @ drop (Suc i) pending) (snd u)
      in (fst u # fst p, snd p))"
  using assms by (subst run_pool.simps) (simp add: Let_def split_beta)

lemma pool_index:
  assumes "pending \<noteq> []"
  shows "c mod min 8 (length pending) < length pending"
proof -
  from assms have "0 < min 8 (length pending)" by simp
  then have "c mod min 8 (length pending) < min 8 (length pending)"
    by (rule mod_less_divisor)
  then show ?thesis by simp
qed

lemma length_remove_nth:
  "i < length xs \<Longrightarrow> length (take i xs @ drop (Suc i) xs) = length xs - 1"
  by simp

lemma mset_remove_nth:
  assumes "i < length xs"
  shows "mset (take i xs @ drop (Suc i) xs) + {#xs ! i#} = mset xs"
proof -
  from assms have "xs = take i xs @ xs ! i # drop (Suc i) xs"
    by (rule id_take_nth_drop)
  then have "mset xs = mset (take i xs @ xs ! i # drop (Suc i) xs)" by simp
  then show ?thesis by simp
qed

lemma run_pool_length:
  "length (fst (run_pool str_of client pending w)) = length pending"
proof (induction "length pending" arbitrary: pending w)
  case 0
  then show ?case by (simp add: run_pool_Nil)
next
  case (Suc n)
  then have ne: "pending \<noteq> []" by auto
  let ?i = "fst (pick w) mod min 8 (length pending)"
  from ne have i: "?i < length pending" by (rule pool_index)
  with Suc.hyps(2) have "n = length (take ?i pending @ drop (Suc ?i) pending)" by simp
  then have "length (fst (run_pool str_of client (take ?i pending @ drop (Suc ?i) pending) w')) = n"
    for w' using Suc.hyps(1) by simp
  with Suc.hyps(2) show ?case by (simp add: run_pool_step [OF ne] Let_def)
qed

lemma run_pool_calls:
  "\<exists>ts. mset ts = mset pending \<and>
        calls (snd (run_pool str_of client pending w)) = calls w @ map (put_of str_of) ts"
proof (induction "length pending" arbitrary: pending w)
  case 0
  then show ?case by (simp add: run_pool_Nil)
next
  case (Suc n)
  then have ne: "pending \<noteq> []" by auto
  let ?i = "fst (pick w) mod min 8 (length pending)"
  let ?t = "pending ! ?i"
  let ?rest = "take ?i pending @ drop (Suc ?i) pending"
  let ?u = "upload_single str_of client (fst ?t) (fst (snd ?t)) (snd (snd ?t)) (snd (pick w))"
  from ne have i: "?i < length pending" by (rule pool_index)
  with Suc.hyps(2) have "n = length ?rest" by simp
  from Suc.hyps(1) [OF this, of "snd ?u"] obtain ts where
    ts: "mset ts = mset ?rest"
    and c: "calls (snd (run_pool str_of client ?rest (snd ?u))) =
            calls (snd ?u) @ map (put_of str_of) ts"
    by blast
  have u: "calls (snd ?u) = calls w @ [put_of str_of ?t]"
    by (simp add: upload_single_calls pick_rest)
  from ts mset_remove_nth [OF i] have "mset (?t # ts) = mset pending" by simp
  moreover from c u have "calls (snd (run_pool str_of client pending w)) =
      calls w @ map (put_of str_of) (?t # ts)"
    by (simp add: run_pool_step [OF ne] Let_def)
  ultimately show ?case by blast
qed

lemma outcomes_0: "outcomes 0 fs = []"
  by (simp add: outcomes_def)

lemma take_pad:
  "n \<le> k \<Longrightarrow> take n (xs @ replicate k a) = take n (xs @ replicate n a)"
  by (auto simp add: min_def)

lemma outcomes_Suc:
  "outcomes (Suc n) fs = (case fs of [] \<Rightarrow> True | f # fs' \<Rightarrow> f = None) # outcomes n (tl fs)"
proof (cases fs)
  case Nil
  then show ?thesis by (simp add: outcomes_def)
next
  case (Cons f fs')
  have "take n (fs' @ replicate (Suc n) None) = take n (fs' @ replicate n None)"
    by (rule take_pad) simp
  with Cons show ?thesis by (simp add: outcomes_def)
qed

lemma passes_hd: "passes w = (case faults w of [] \<Rightarrow> True | f # fs' \<Rightarrow> f = None)"
  by (simp add: passes_def split: list.splits option.splits)

lemma run_pool_bucket_stays:
  "buckets w BUCKET_NAME \<noteq> None \<Longrightarrow>
   buckets (snd (run_pool str_of client pending w)) BUCKET_NAME \<noteq> None"
proof (induction "length pending" arbitrary: pending w)
  case 0
  then show ?case by (simp add: run_pool_Nil)
next
  case (Suc n)
  then have ne: "pending \<noteq> []" by auto
  let ?i = "fst (pick w) mod min 8 (length pending)"
  let ?t = "pending ! ?i"
  let ?rest = "take ?i pending @ drop (Suc ?i) pending"
  let ?u = "upload_single str_of client (fst ?t) (fst (snd ?t)) (snd (snd ?t)) (snd (pick w))"
  from ne have i: "?i < length pending" by (rule pool_index)
  with Suc.hyps(2) have n: "n = length ?rest" by simp
  from Suc.prems have "buckets (snd ?u) BUCKET_NAME \<noteq> None"
    by (simp add: upload_single_bucket_stays pick_rest)
  from Suc.hyps(1) [OF n this] show ?case
    by (simp add: run_pool_step [OF ne] Let_def)
qed

lemma run_pool_results:
  "buckets w BUCKET_NAME \<noteq> None \<Longrightarrow>
   fst (run_pool str_of client pending w) = outcomes (length pending) (faults w)"
proof (induction "length pending" arbitrary: pending w)
  case 0
  then show ?case by (simp add: run_pool_Nil outcomes_0)
next
  case (Suc n)
  then have ne: "pending \<noteq> []" by auto
  let ?i = "fst (pick w) mod min 8 (length pending)"
  let ?t = "pending ! ?i"
  let ?rest = "take ?i pending @ drop (Suc ?i) pending"
  let ?u = "upload_single str_of client (fst ?t) (fst (snd ?t)) (snd (snd ?t)) (snd (pick w))"
  from ne have i: "?i < length pending" by (rule pool_index)
  with Suc.hyps(2) have n: "n = length ?rest" by simp
  from Suc.prems have b: "buckets (snd ?u) BUCKET_NAME \<noteq> None"
    by (simp add: upload_single_bucket_stays pick_rest)
  have f: "faults (snd ?u) = tl (faults w)"
    by (simp add: upload_single_faults pick_rest)
  from Suc.prems have r: "fst ?u = (case faults w of [] \<Rightarrow> True | f # fs' \<Rightarrow> f = None)"
    by (simp add: upload_single_result passes_hd pick_rest)
  from Suc.hyps(1) [OF n b] f
  have "fst (run_pool str_of client ?rest (snd ?u)) = outcomes n (tl (faults w))"
    using n by simp
  with r Suc.hyps(2) [symmetric] show ?case
    by (simp add: run_pool_step [OF ne] Let_def outcomes_Suc)
qed

subsection \<open>The guard\<close>

lemma ensure_bucket_nonempty:
  assumes "buckets w BUCKET_NAME = Some objs" and "objs \<noteq> []"
  shows "fst (ensure_bucket client w) \<noteq> Inr True"
    and "buckets (snd (ensure_bucket client w)) = buckets w"
    and "\<exists>cs. calls (snd (ensure_bucket client w)) = calls w @ cs \<and> list_all is_check cs"
  using assms
  by (auto simp: ensure_bucket_def bucket_exists_def list_objects_def request_def print_def
      is_check_def split: list.splits option.splits bool.splits prod.splits sum.splits)

lemma ensure_bucket_no_put:
  "put_calls (snd (ensure_bucket client w)) = put_calls w"
  by (auto simp: ensure_bucket_def bucket_exists_def list_objects_def make_bucket_def
      request_def print_def put_calls_def split: list.splits option.splits bool.splits prod.splits sum.splits)

lemma ensure_bucket_proceeds:
  assumes "fst (ensure_bucket client w) = Inr True"
  shows "buckets (snd (ensure_bucket client w)) BUCKET_NAME = Some []"
  using assms
  by (auto simp: ensure_bucket_def bucket_exists_def list_objects_def make_bucket_def
      request_def print_def split: list.splits option.splits if_splits bool.splits prod.splits sum.splits)

lemma ensure_bucket_fresh:
  assumes "buckets w BUCKET_NAME = None \<or> buckets w BUCKET_NAME = Some []"
    and "list_all (\<lambda>f. f = None) (take 2 (faults w))"
  shows "fst (ensure_bucket client w) = Inr True"
  using assms
  by (auto simp: ensure_bucket_def bucket_exists_def list_objects_def make_bucket_def
      request_def print_def split: list.splits option.splits if_splits bool.splits prod.splits sum.splits)

lemma main_seeded:
  assumes "buckets w BUCKET_NAME = Some objs" and "objs \<noteq> []"
  shows "put_calls (snd (main str_of w)) = put_calls w \<and>
         buckets (snd (main str_of w)) = buckets w \<and>
         (\<exists>cs. calls (snd (main str_of w)) = calls w @ cs \<and> list_all is_check cs)"
proof (cases "load_sensors w")
  case (Inl e)
  then show ?thesis by (simp add: main_def)
next
  case (Inr sensors)
  show ?thesis
  proof (cases "invalid_config w (create_minio_client (environ w))")
    case True
    with Inr have "snd (main str_of w) = w" by (simp add: main_def minio_init_def)
    then show ?thesis by simp
  next
    case False
    let ?g = "ensure_bucket (create_minio_client (environ w)) w"
    from ensure_bucket_nonempty [OF assms, of "create_minio_client (environ w)"]
    have g: "fst ?g \<noteq> Inr True" and b: "buckets (snd ?g) = buckets w"
      and c: "\<exists>cs. calls (snd ?g) = calls w @ cs \<and> list_all is_check cs"
      by simp_all
    from g False have m: "snd (main str_of w) = snd ?g"
      by (cases ?g) (auto simp: main_def minio_init_def Inr split: sum.splits bool.splits)
    from c have "put_calls (snd ?g) = put_calls w"
      by (simp add: ensure_bucket_no_put)
    with m b c show ?thesis by simp
  qed
qed

text \<open>
  C1. When the bucket exists and holds at least one object at the start, a run of \<open>main\<close>
  issues no \<open>put_object\<close>: the calls it makes only read the bucket (existence check,
  listing), and the buckets are at the end what they were. Put the other way, for any
  starting world: the bucket is missing, or it is empty, or the run issues no
  \<open>put_object\<close>.
\<close>

theorem nonempty_bucket_no_upload:
  assumes "buckets w BUCKET_NAME = Some objs" and "objs \<noteq> []"
  shows "put_calls (snd (main str_of w)) = put_calls w \<and>
         buckets (snd (main str_of w)) = buckets w \<and>
         (\<exists>cs. calls (snd (main str_of w)) = calls w @ cs \<and> list_all is_check cs) \<and>
         (buckets w0 BUCKET_NAME = None \<or> buckets w0 BUCKET_NAME = Some [] \<or>
          put_calls (snd (main str_of w0)) = put_calls w0)"
proof -
  have "buckets w0 BUCKET_NAME = None \<or> buckets w0 BUCKET_NAME = Some [] \<or>
        put_calls (snd (main str_of w0)) = put_calls w0"
  proof (cases "buckets w0 BUCKET_NAME")
    case None
    then show ?thesis by simp
  next
    case (Some objs0)
    show ?thesis
    proof (cases "objs0 = []")
      case True
      with Some show ?thesis by simp
    next
      case False
      from main_seeded [OF Some False, of str_of] show ?thesis by simp
    qed
  qed
  with main_seeded [OF assms, of str_of] show ?thesis by simp
qed

theorem nonempty_bucket_no_upload_witness:
  "buckets seeded_world BUCKET_NAME =
     Some [(''s1_2022_01.csv'', \<lparr>body = ''test'', content_type = ''text/csv''\<rparr>)] \<and>
   [(''s1_2022_01.csv'', \<lparr>body = ''test'', content_type = ''text/csv''\<rparr>)] \<noteq> [] \<and>
   put_calls (snd (main (\<lambda>v. []) seeded_world)) = [] \<and>
   buckets (snd (main (\<lambda>v. []) seeded_world)) = buckets seeded_world"
proof -
  have b: "buckets seeded_world BUCKET_NAME =
     Some [(''s1_2022_01.csv'', \<lparr>body = ''test'', content_type = ''text/csv''\<rparr>)]"
    by (simp add: seeded_world_def example_world_def BUCKET_NAME_def)
  have n: "[(''s1_2022_01.csv'', \<lparr>body = ''test'', content_type = ''text/csv''\<rparr>)] \<noteq> []"
    by simp
  have p: "put_calls seeded_world = []"
    by (simp add: put_calls_def seeded_world_def example_world_def)
  from nonempty_bucket_no_upload [OF b n, of "\<lambda>v. []"] b p show ?thesis by simp
qed

subsection \<open>Failing uploads\<close>

lemma put_object_raises:
  assumes "fst (put_object client bucket name data len ctype w) = Inl msg"
  shows "buckets (snd (put_object client bucket name data len ctype w)) = buckets w"
    and "stdout (snd (put_object client bucket name data len ctype w)) = stdout w"
  using assms
  by (auto simp: put_object_def request_def
      split: list.splits option.splits prod.splits sum.splits)

lemma upload_single_unfold:
  "upload_single str_of client s y m w =
     (case put_object client BUCKET_NAME (filename_of str_of s y m) ''test'' 4 ''text/csv'' w of
        (Inr u, w1) \<Rightarrow> (True, print (''Uploaded '' @ filename_of str_of s y m) w1)
      | (Inl e, w1) \<Rightarrow> (False, print (''Failed '' @ filename_of str_of s y m @ '': '' @ e) w1))"
proof -
  have l: "length ''test'' = 4" by simp
  show ?thesis unfolding upload_single_def Let_def by (simp only: l)
qed

lemma upload_single_raises:
  assumes "fst (put_object client BUCKET_NAME (filename_of str_of s y m)
                  ''test'' 4 ''text/csv'' w) = Inl msg"
  shows "fst (upload_single str_of client s y m w) = False"
    and "stdout (snd (upload_single str_of client s y m w)) =
           stdout w @ [''Failed '' @ filename_of str_of s y m @ '': '' @ msg]"
    and "buckets (snd (upload_single str_of client s y m w)) = buckets w"
proof -
  let ?p = "put_object client BUCKET_NAME (filename_of str_of s y m) ''test'' 4 ''text/csv'' w"
  from assms have u: "upload_single str_of client s y m w =
      (False, print (''Failed '' @ filename_of str_of s y m @ '': '' @ msg) (snd ?p))"
    by (cases ?p) (simp add: upload_single_unfold)
  from u show "fst (upload_single str_of client s y m w) = False" by simp
  from u put_object_raises(2) [OF assms]
  show "stdout (snd (upload_single str_of client s y m w)) =
           stdout w @ [''Failed '' @ filename_of str_of s y m @ '': '' @ msg]"
    by (simp add: print_def)
  from u put_object_raises(1) [OF assms]
  show "buckets (snd (upload_single str_of client s y m w)) = buckets w"
    by (simp add: print_def)
qed

lemma run_pool_no_bucket:
  "buckets w BUCKET_NAME = None \<Longrightarrow>
   fst (run_pool str_of client pending w) = replicate (length pending) False"
proof (induction "length pending" arbitrary: pending w)
  case 0
  then show ?case by (simp add: run_pool_Nil)
next
  case (Suc n)
  then have ne: "pending \<noteq> []" by auto
  let ?i = "fst (pick w) mod min 8 (length pending)"
  let ?t = "pending ! ?i"
  let ?rest = "take ?i pending @ drop (Suc ?i) pending"
  let ?u = "upload_single str_of client (fst ?t) (fst (snd ?t)) (snd (snd ?t)) (snd (pick w))"
  from ne have i: "?i < length pending" by (rule pool_index)
  with Suc.hyps(2) have n: "n = length ?rest" by simp
  from Suc.prems have r: "\<not> fst ?u"
    by (simp add: upload_single_result pick_rest)
  with Suc.prems have b: "buckets (snd ?u) BUCKET_NAME = None"
    by (simp add: upload_single_failed pick_rest)
  from Suc.hyps(1) [OF n b]
  have "fst (run_pool str_of client ?rest (snd ?u)) = replicate n False"
    using n by simp
  with r Suc.hyps(2) [symmetric] show ?case
    by (simp add: run_pool_step [OF ne] Let_def)
qed

text \<open>
  C5. When the \<open>put_object\<close> of an upload raises, with message \<open>msg\<close>, the upload
  returns False, prints \<open>Failed\<close>, the file name and \<open>msg\<close>, and leaves the buckets as
  they were. No upload of the pool is lost to the failure of another: the pool returns
  one result per task and issues one \<open>put_object\<close> per task, and each result is decided
  by the upload's own call, True exactly when that call goes through (all False when the
  bucket does not exist).
\<close>

theorem failed_upload_is_contained:
  assumes "fst (put_object client BUCKET_NAME (filename_of str_of sensor_id year month)
                  ''test'' 4 ''text/csv'' w) = Inl msg"
  shows "fst (upload_single str_of client sensor_id year month w) = False \<and>
         stdout (snd (upload_single str_of client sensor_id year month w)) =
           stdout w @ [''Failed '' @ filename_of str_of sensor_id year month @ '': '' @ msg] \<and>
         buckets (snd (upload_single str_of client sensor_id year month w)) = buckets w \<and>
         length (fst (run_pool str_of client tasks w)) = length tasks \<and>
         (\<exists>ts. mset ts = mset tasks \<and>
            calls (snd (run_pool str_of client tasks w)) = calls w @ map (put_of str_of) ts) \<and>
         (if buckets w BUCKET_NAME = None
          then fst (run_pool str_of client tasks w) = replicate (length tasks) False
          else fst (run_pool str_of client tasks w) = outcomes (length tasks) (faults w))"
proof -
  have "if buckets w BUCKET_NAME = None
        then fst (run_pool str_of client tasks w) = replicate (length tasks) False
        else fst (run_pool str_of client tasks w) = outcomes (length tasks) (faults w)"
    by (simp add: run_pool_no_bucket run_pool_results)
  with upload_single_raises [OF assms] run_pool_length [of str_of client tasks w]
    run_pool_calls [of tasks str_of client w]
  show ?thesis by simp
qed

theorem failed_upload_is_contained_witness:
  "fst (put_object (create_minio_client Map.empty) BUCKET_NAME
          (filename_of (\<lambda>v. []) (JString ''s1'') 2022 1) ''test'' 4 ''text/csv'' faulty_world)
     = Inl ''timed out'' \<and>
   stdout (snd (upload_single (\<lambda>v. []) (create_minio_client Map.empty) (JString ''s1'') 2022 1
                  faulty_world)) = [''Failed s1_2022_01.csv: timed out''] \<and>
   fst (run_pool (\<lambda>v. []) (create_minio_client Map.empty)
          [(JString ''s1'', 2022, 1), (JString ''s1'', 2022, 2), (JString ''s1'', 2022, 3)]
          faulty_world) = [False, True, True]"
proof -
  have h: "fst (put_object (create_minio_client Map.empty) BUCKET_NAME
          (filename_of (\<lambda>v. []) (JString ''s1'') 2022 1) ''test'' 4 ''text/csv'' faulty_world)
     = Inl ''timed out''"
    by (simp add: put_object_def request_def faulty_world_def example_world_def)
  have n: "filename_of (\<lambda>v. []) (JString ''s1'') 2022 1 = ''s1_2022_01.csv''"
    by (simp add: filename_of_def py_str_int_def fmt_02d_def dec_nat.simps digit_char_def)
  have b: "buckets faulty_world BUCKET_NAME \<noteq> None"
    by (simp add: faulty_world_def example_world_def BUCKET_NAME_def)
  have f: "faults faulty_world = [Some ''timed out'', None]"
    and s: "stdout faulty_world = []"
    by (simp_all add: faulty_world_def example_world_def)
  from failed_upload_is_contained [OF h,
      of "[(JString ''s1'', 2022, 1), (JString ''s1'', 2022, 2), (JString ''s1'', 2022, 3)]"]
    h n b f s
  show ?thesis by (simp add: outcomes_def)
qed

subsection \<open>The task generator\<close>

lemma only_rng_refl: "only_rng w w"
  by (simp add: only_rng_def)

lemma only_rng_trans: "only_rng w w1 \<Longrightarrow> only_rng w1 w2 \<Longrightarrow> only_rng w w2"
  unfolding only_rng_def by (cases w, cases w1, cases w2) simp

lemma only_rng_fields:
  assumes "only_rng w w'"
  shows "calls w' = calls w" and "buckets w' = buckets w" and "faults w' = faults w"
    and "sched w' = sched w" and "stdout w' = stdout w"
proof -
  from assms have e: "w' = w\<lparr>rng := rng w'\<rparr>" by (simp add: only_rng_def)
  show "calls w' = calls w" by (subst e) simp
  show "buckets w' = buckets w" by (subst e) simp
  show "faults w' = faults w" by (subst e) simp
  show "sched w' = sched w" by (subst e) simp
  show "stdout w' = stdout w" by (subst e) simp
qed

lemma draw_only_rng: "only_rng w (snd (draw w))"
  by (simp add: draw_def only_rng_def split: list.splits)

lemma randint_2_4:
  "\<exists>k. fst (randint 2 4 w) = Inr k \<and> 2 \<le> k \<and> k \<le> 4"
proof -
  have "fst (draw w) mod 3 < 3" by simp
  then show ?thesis by (simp add: randint_def split_beta)
qed

lemma randint_only_rng: "only_rng w (snd (randint a b w))"
  using draw_only_rng [of w] by (simp add: randint_def split_beta only_rng_refl)

lemma set_remove_nth:
  assumes "distinct xs" and "i < length xs"
  shows "distinct (take i xs @ drop (Suc i) xs)"
    and "set (take i xs @ drop (Suc i) xs) = set xs - {xs ! i}"
proof -
  from assms(2) have e: "xs = take i xs @ xs ! i # drop (Suc i) xs"
    by (rule id_take_nth_drop)
  with assms(1) have d: "distinct (take i xs @ xs ! i # drop (Suc i) xs)" by simp
  then show "distinct (take i xs @ drop (Suc i) xs)" by simp
  from d have "xs ! i \<notin> set (take i xs @ drop (Suc i) xs)" by simp
  moreover have "set xs = insert (xs ! i) (set (take i xs @ drop (Suc i) xs))"
    by (subst e) simp
  ultimately show "set (take i xs @ drop (Suc i) xs) = set xs - {xs ! i}" by auto
qed

lemma sample_loop_distinct:
  assumes "distinct pop" and "k \<le> length pop"
  shows "length (fst (sample_loop pop k w)) = k \<and>
         distinct (fst (sample_loop pop k w)) \<and>
         set (fst (sample_loop pop k w)) \<subseteq> set pop"
  using assms
proof (induction k arbitrary: pop w)
  case 0
  then show ?case by simp
next
  case (Suc k)
  then have ne: "pop \<noteq> []" by auto
  let ?i = "fst (draw w) mod length pop"
  let ?rest = "take ?i pop @ drop (Suc ?i) pop"
  let ?r = "sample_loop ?rest k (snd (draw w))"
  from ne have i: "?i < length pop" by simp
  from set_remove_nth [OF Suc.prems(1) i]
  have d: "distinct ?rest" and s: "set ?rest = set pop - {pop ! ?i}" by simp_all
  from i Suc.prems(2) have "k \<le> length ?rest" by simp
  from Suc.IH [OF d this, of "snd (draw w)"]
  have l: "length (fst ?r) = k" and dr: "distinct (fst ?r)" and sr: "set (fst ?r) \<subseteq> set ?rest"
    by simp_all
  have u: "fst (sample_loop pop (Suc k) w) = pop ! ?i # fst ?r"
    using ne by (simp add: split_beta Let_def)
  from sr s have "pop ! ?i \<notin> set (fst ?r)" by auto
  moreover from sr s have "set (fst ?r) \<subseteq> set pop" by auto
  moreover from i have "pop ! ?i \<in> set pop" by simp
  ultimately show ?case using u l dr by simp
qed

lemma sample_loop_only_rng: "only_rng w (snd (sample_loop pop k w))"
proof (induction k arbitrary: pop w)
  case 0
  then show ?case by (simp add: only_rng_refl)
next
  case (Suc k)
  show ?case
  proof (cases "pop = []")
    case True
    then show ?thesis by (simp add: only_rng_refl)
  next
    case False
    let ?i = "fst (draw w) mod length pop"
    have "only_rng (snd (draw w))
            (snd (sample_loop (take ?i pop @ drop (Suc ?i) pop) k (snd (draw w))))"
      by (rule Suc.IH)
    with draw_only_rng [of w] have "only_rng w
            (snd (sample_loop (take ?i pop @ drop (Suc ?i) pop) k (snd (draw w))))"
      by (rule only_rng_trans)
    with False show ?thesis by (simp add: split_beta Let_def)
  qed
qed

lemma sample_months:
  assumes "2 \<le> k" and "k \<le> 4"
  shows "\<exists>months. fst (sample [1..12] k w) = Inr months \<and> length months = nat k \<and>
           distinct months \<and> set months \<subseteq> {1..12}"
proof -
  have d: "distinct [1..12::int]" by simp
  have "length [1..12::int] = 12" by simp
  with assms have n: "nat k \<le> length [1..12::int]" by simp
  from sample_loop_distinct [OF d n, of w] assms show ?thesis
    by (simp add: sample_def split_beta)
qed

lemma sample_only_rng: "only_rng w (snd (sample pop k w))"
  using sample_loop_only_rng [of w pop "nat k"]
  by (simp add: sample_def split_beta only_rng_refl)

lemma months_loop_append:
  "months_loop s y months tasks = tasks @ map (\<lambda>m. (s, y, m)) months"
  by (induction months arbitrary: tasks) simp_all

lemma block_ok_months:
  assumes "2 \<le> length months" and "length months \<le> 4" and "distinct months"
    and "set months \<subseteq> {1..12}"
  shows "block_ok s y (map (\<lambda>m. (s, y, m)) months)"
  using assms by (auto simp: block_ok_def list_all_iff comp_def)

lemma years_loop_blocks:
  "\<exists>blocks w'. years_loop s ys tasks w = (Inr (tasks @ concat blocks), w') \<and>
      list_all2 (block_ok s) ys blocks \<and> only_rng w w'"
proof (induction ys arbitrary: tasks w)
  case Nil
  then show ?case by (simp add: only_rng_refl)
next
  case (Cons y ys)
  obtain k where k: "fst (randint 2 4 w) = Inr k" and k2: "2 \<le> k" and k4: "k \<le> 4"
    using randint_2_4 [of w] by blast
  let ?w1 = "snd (randint 2 4 w)"
  obtain months where m: "fst (sample [1..12] k ?w1) = Inr months"
    and ml: "length months = nat k" and md: "distinct months" and ms: "set months \<subseteq> {1..12}"
    using sample_months [OF k2 k4, of ?w1] by blast
  let ?w2 = "snd (sample [1..12] k ?w1)"
  let ?b = "map (\<lambda>m. (s, y, m)) months"
  from ml k2 k4 have "2 \<le> length months" and "length months \<le> 4" by simp_all
  then have b: "block_ok s y ?b" using md ms by (rule block_ok_months)
  from Cons.IH [of "tasks @ ?b" ?w2] obtain blocks w' where
    r: "years_loop s ys (tasks @ ?b) ?w2 = (Inr ((tasks @ ?b) @ concat blocks), w')"
    and a: "list_all2 (block_ok s) ys blocks" and o: "only_rng ?w2 w'"
    by blast
  have "only_rng w ?w1" by (rule randint_only_rng)
  moreover have "only_rng ?w1 ?w2" by (rule sample_only_rng)
  ultimately have "only_rng w ?w2" by (rule only_rng_trans)
  then have o': "only_rng w w'" using o by (rule only_rng_trans)
  from k m r have "years_loop s (y # ys) tasks w = (Inr (tasks @ concat (?b # blocks)), w')"
    by (cases "randint 2 4 w"; cases "sample [1..12] k ?w1") (simp add: months_loop_append)
  moreover from a b have "list_all2 (block_ok s) (y # ys) (?b # blocks)" by simp
  ultimately show ?case using o' by blast
qed

lemma sensors_loop_blocks:
  "\<exists>blocks w'. sensors_loop sensors tasks w = (Inr (tasks @ concat blocks), w') \<and>
      list_all2 (\<lambda>(s, y) b. block_ok s y b) (List.product sensors YEARS) blocks \<and>
      only_rng w w'"
proof (induction sensors arbitrary: tasks w)
  case Nil
  then show ?case by (simp add: only_rng_refl)
next
  case (Cons s sensors)
  from years_loop_blocks [of s YEARS tasks w] obtain bs w1 where
    y: "years_loop s YEARS tasks w = (Inr (tasks @ concat bs), w1)"
    and yb: "list_all2 (block_ok s) YEARS bs" and yo: "only_rng w w1"
    by blast
  from Cons.IH [of "tasks @ concat bs" w1] obtain blocks w' where
    r: "sensors_loop sensors (tasks @ concat bs) w1 = (Inr ((tasks @ concat bs) @ concat blocks), w')"
    and a: "list_all2 (\<lambda>(s, y) b. block_ok s y b) (List.product sensors YEARS) blocks"
    and o: "only_rng w1 w'"
    by blast
  from yb have "list_all2 (\<lambda>(s, y) b. block_ok s y b) (map (Pair s) YEARS) bs"
    by (simp add: list_all2_map1)
  with a have "list_all2 (\<lambda>(s, y) b. block_ok s y b)
      (List.product (s # sensors) YEARS) (bs @ blocks)"
    by (simp add: list_all2_appendI)
  moreover from y r have "sensors_loop (s # sensors) tasks w =
      (Inr (tasks @ concat (bs @ blocks)), w')"
    by simp
  moreover from yo o have "only_rng w w'" by (rule only_rng_trans)
  ultimately show ?case by blast
qed

lemma gen_tasks_blocks:
  "\<exists>blocks w'. gen_tasks sensors w = (Inr (concat blocks), w') \<and>
      list_all2 (\<lambda>(s, y) b. block_ok s y b) (List.product sensors YEARS) blocks \<and>
      only_rng w w'"
  using sensors_loop_blocks [of sensors "[]" w] by (simp add: gen_tasks_def)



subsection \<open>The whole run\<close>

lemma ensure_bucket_calls:
  "\<exists>cs. calls (snd (ensure_bucket client w)) = calls w @ cs \<and> filter is_put cs = []"
  by (auto simp: ensure_bucket_def bucket_exists_def list_objects_def make_bucket_def
      request_def print_def split: list.splits option.splits bool.splits prod.splits sum.splits)

lemma main_proceeds:
  assumes "load_sensors w = Inr sensors"
    and "\<not> invalid_config w (create_minio_client (environ w))"
    and "fst (ensure_bucket (create_minio_client (environ w)) w) = Inr True"
  shows "\<exists>tasks w2.
      gen_tasks sensors (snd (ensure_bucket (create_minio_client (environ w)) w)) = (Inr tasks, w2) \<and>
      only_rng (snd (ensure_bucket (create_minio_client (environ w)) w)) w2 \<and>
      main str_of w =
        (Inr (), print (completed_line
                   (length (filter (\<lambda>r. r)
                      (fst (run_pool str_of (create_minio_client (environ w)) tasks w2))))
                   (length tasks))
                  (snd (run_pool str_of (create_minio_client (environ w)) tasks w2)))"
proof -
  let ?c = "create_minio_client (environ w)"
  let ?g = "ensure_bucket ?c w"
  from gen_tasks_blocks [of sensors "snd ?g"] obtain blocks w2 where
    g: "gen_tasks sensors (snd ?g) = (Inr (concat blocks), w2)" and o: "only_rng (snd ?g) w2"
    by blast
  from assms(3) obtain w1 where e: "?g = (Inr True, w1)" by (cases ?g) auto
  with g have g': "gen_tasks sensors w1 = (Inr (concat blocks), w2)" by simp
  from assms(2) have i: "minio_init w ?c = Inr ?c" by (simp add: minio_init_def)
  have "main str_of w =
        (Inr (), print (completed_line
                   (length (filter (\<lambda>r. r) (fst (run_pool str_of ?c (concat blocks) w2))))
                   (length (concat blocks)))
                  (snd (run_pool str_of ?c (concat blocks) w2)))"
    by (simp add: main_def assms(1) i e g' split_beta)
  with g o show ?thesis by blast
qed

lemma main_stops:
  assumes "load_sensors w = Inl e \<or>
           invalid_config w (create_minio_client (environ w)) \<or>
           fst (ensure_bucket (create_minio_client (environ w)) w) \<noteq> Inr True"
  shows "snd (main str_of w) = w \<or>
         snd (main str_of w) = snd (ensure_bucket (create_minio_client (environ w)) w)"
proof (cases "load_sensors w")
  case (Inl e')
  then show ?thesis by (simp add: main_def)
next
  case (Inr sensors)
  show ?thesis
  proof (cases "invalid_config w (create_minio_client (environ w))")
    case True
    with Inr show ?thesis by (simp add: main_def minio_init_def)
  next
    case False
    with Inr assms
    have "fst (ensure_bucket (create_minio_client (environ w)) w) \<noteq> Inr True" by simp
    with False
    have "snd (main str_of w) = snd (ensure_bucket (create_minio_client (environ w)) w)"
      by (cases "ensure_bucket (create_minio_client (environ w)) w")
        (auto simp: main_def minio_init_def Inr split: sum.splits bool.splits)
    then show ?thesis by simp
  qed
qed

lemma filter_put_of: "filter is_put (map (put_of str_of) ts) = map (put_of str_of) ts"
  by (induction ts) (simp_all add: put_of_def split_beta)

lemma print_calls: "calls (print line w) = calls w"
  by (simp add: print_def)

lemma ensure_bucket_fresh_faults:
  assumes "buckets w BUCKET_NAME = None \<or> buckets w BUCKET_NAME = Some []"
    and "list_all (\<lambda>f. f = None) (take 2 (faults w))"
  shows "faults (snd (ensure_bucket client w)) = drop 2 (faults w)"
  using assms
  by (auto simp: ensure_bucket_def bucket_exists_def list_objects_def make_bucket_def
      request_def print_def split: list.splits option.splits if_splits bool.splits prod.splits sum.splits)

lemma digit_value_digit_char: "d < 10 \<Longrightarrow> digit_value (digit_char d) = d"
proof -
  assume "d < 10"
  then have "d \<in> {0, 1, 2, 3, 4, 5, 6, 7, 8, 9}" by auto
  then show ?thesis by (auto simp: digit_value_def digit_char_def)
qed

lemma dec_value_snoc: "dec_value (s @ [c]) = 10 * dec_value s + digit_value c"
  by (simp add: dec_value_def)

lemma dec_value_dec_nat: "dec_value (dec_nat n) = n"
proof (induction n rule: dec_nat.induct)
  case (1 n)
  show ?case
  proof (cases "n < 10")
    case True
    then show ?thesis
      by (simp add: dec_nat_digit dec_value_def digit_value_digit_char)
  next
    case False
    with "1" have ih: "dec_value (dec_nat (n div 10)) = n div 10" by simp
    from False have "dec_nat n = dec_nat (n div 10) @ [digit_char (n mod 10)]"
      by (subst dec_nat.simps) simp
    with ih show ?thesis
      by (simp add: dec_value_snoc digit_value_digit_char)
  qed
qed

lemma stdout_print: "stdout (print line w) = stdout w @ [line]"
  by (simp add: print_def)

text \<open>
  C6. When the sensors load, the client is constructed, the bucket is missing or empty at
  the start, and the two calls of the guard go through, \<open>main\<close> passes the guard,
  generates its tasks, runs the pool on them and returns normally. The number of
  \<open>put_object\<close> calls of the run is the number of generated tasks, and the pool returns
  one result per task, True exactly for the uploads whose call goes through. The last
  line of the output is a newline, \<open>Completed: \<close>, the number of True results in
  decimal, a slash, the number of tasks in decimal, and \<open> files uploaded\<close>; the first
  number is at most the second.
\<close>

theorem attempts_equal_tasks:
  assumes "load_sensors w = Inr sensors"
    and "\<not> invalid_config w (create_minio_client (environ w))"
    and "buckets w BUCKET_NAME = None \<or> buckets w BUCKET_NAME = Some []"
    and "list_all (\<lambda>f. f = None) (take 2 (faults w))"
  shows "\<exists>tasks results w1 w2 w3.
      ensure_bucket (create_minio_client (environ w)) w = (Inr True, w1) \<and>
      gen_tasks sensors w1 = (Inr tasks, w2) \<and>
      run_pool str_of (create_minio_client (environ w)) tasks w2 = (results, w3) \<and>
      main str_of w =
        (Inr (), print (completed_line (length (filter (\<lambda>r. r) results)) (length tasks)) w3) \<and>
      stdout (snd (main str_of w)) =
        stdout w3 @
        [[CHR 0x0A] @ ''Completed: '' @ dec_nat (length (filter (\<lambda>r. r) results)) @ ''/'' @
         dec_nat (length tasks) @ '' files uploaded''] \<and>
      dec_value (dec_nat (length (filter (\<lambda>r. r) results))) = length (filter (\<lambda>r. r) results) \<and>
      dec_value (dec_nat (length tasks)) = length tasks \<and>
      length (filter (\<lambda>r. r) results) \<le> length tasks \<and>
      length (put_calls (snd (main str_of w))) = length (put_calls w) + length tasks \<and>
      length results = length tasks \<and>
      results = outcomes (length tasks) (drop 2 (faults w))"
proof -
  let ?c = "create_minio_client (environ w)"
  let ?g = "ensure_bucket ?c w"
  from assms(3,4) have t: "fst ?g = Inr True" by (rule ensure_bucket_fresh)
  then have g: "?g = (Inr True, snd ?g)" by (cases ?g) simp
  from main_proceeds [OF assms(1,2) t, of str_of] obtain tasks w2 where
    gt: "gen_tasks sensors (snd ?g) = (Inr tasks, w2)"
    and o: "only_rng (snd ?g) w2"
    and m: "main str_of w =
        (Inr (), print (completed_line
                   (length (filter (\<lambda>r. r) (fst (run_pool str_of ?c tasks w2))))
                   (length tasks))
                  (snd (run_pool str_of ?c tasks w2)))"
    by blast
  let ?p = "run_pool str_of ?c tasks w2"
  let ?k = "length (filter (\<lambda>r. r) (fst ?p))"
  have l: "length (fst ?p) = length tasks" by (rule run_pool_length)
  from run_pool_calls [of tasks str_of ?c w2] obtain ts where
    ts: "mset ts = mset tasks" and c: "calls (snd ?p) = calls w2 @ map (put_of str_of) ts"
    by blast
  from ts have "size (mset ts) = size (mset tasks)" by simp
  then have lt: "length ts = length tasks" by simp
  from o have "calls w2 = calls (snd ?g)" by (rule only_rng_fields)
  then have "put_calls w2 = put_calls w"
    using ensure_bucket_no_put [of ?c w] by (simp add: put_calls_def)
  with c lt have "length (put_calls (snd ?p)) = length (put_calls w) + length tasks"
    by (simp add: put_calls_def filter_put_of)
  with m have a: "length (put_calls (snd (main str_of w))) = length (put_calls w) + length tasks"
    by (simp add: put_calls_def print_calls)
  have "?k \<le> length (fst ?p)" by (rule length_filter_le)
  with l have s: "?k \<le> length tasks" by simp
  from m have out: "stdout (snd (main str_of w)) =
        stdout (snd ?p) @
        [[CHR 0x0A] @ ''Completed: '' @ dec_nat ?k @ ''/'' @
         dec_nat (length tasks) @ '' files uploaded'']"
    by (simp add: stdout_print completed_line_def)
  have v1: "dec_value (dec_nat ?k) = ?k" and v2: "dec_value (dec_nat (length tasks)) = length tasks"
    by (rule dec_value_dec_nat)+
  from t have "buckets (snd ?g) BUCKET_NAME = Some []" by (rule ensure_bucket_proceeds)
  moreover from o have "buckets w2 = buckets (snd ?g)" by (rule only_rng_fields)
  ultimately have "buckets w2 BUCKET_NAME \<noteq> None" by simp
  then have "fst ?p = outcomes (length tasks) (faults w2)" by (rule run_pool_results)
  moreover from o have "faults w2 = faults (snd ?g)" by (rule only_rng_fields)
  moreover from assms(3,4) have "faults (snd ?g) = drop 2 (faults w)"
    by (rule ensure_bucket_fresh_faults)
  ultimately have r: "fst ?p = outcomes (length tasks) (drop 2 (faults w))" by simp
  have p: "?p = (fst ?p, snd ?p)" by simp
  show ?thesis
    apply (rule exI [of _ tasks])
    apply (rule exI [of _ "fst ?p"])
    apply (rule exI [of _ "snd ?g"])
    apply (rule exI [of _ w2])
    apply (rule exI [of _ "snd ?p"])
    using g gt p m out v1 v2 s a l r
    apply (intro conjI)
              apply assumption+
    done
qed

theorem attempts_equal_tasks_witness:
  "load_sensors lossy_world = Inr [JString ''s1'', JString ''s2''] \<and>
   \<not> invalid_config lossy_world (create_minio_client (environ lossy_world)) \<and>
   buckets lossy_world BUCKET_NAME = None \<and>
   list_all (\<lambda>f. f = None) (take 2 (faults lossy_world)) \<and>
   fst (main (\<lambda>v. []) lossy_world) = Inr () \<and>
   length (put_calls (snd (main (\<lambda>v. []) lossy_world))) = 19 \<and>
   last (stdout (snd (main (\<lambda>v. []) lossy_world))) =
     CHR 0x0A # ''Completed: 18/19 files uploaded''"
proof -
  let ?w1 = "lossy_world\<lparr>buckets := [''paws'' \<mapsto> []], faults := [Some ''timed out''],
                calls := [BucketExists ''paws'', MakeBucket ''paws'']\<rparr>"
  have h1: "load_sensors lossy_world = Inr [JString ''s1'', JString ''s2'']"
    by (simp add: load_sensors_def lossy_world_def example_world_def example_items_def)
  have h2: "\<not> invalid_config lossy_world (create_minio_client (environ lossy_world))"
    by (simp add: lossy_world_def example_world_def)
  have h3: "buckets lossy_world BUCKET_NAME = None"
    by (simp add: lossy_world_def example_world_def)
  then have h3': "buckets lossy_world BUCKET_NAME = None \<or>
                  buckets lossy_world BUCKET_NAME = Some []" by simp
  have h4: "list_all (\<lambda>f. f = None) (take 2 (faults lossy_world))"
    by (simp add: lossy_world_def example_world_def)
  have f: "drop 2 (faults lossy_world) = [Some ''timed out'']"
    by (simp add: lossy_world_def example_world_def)
  have g: "ensure_bucket (create_minio_client (environ lossy_world)) lossy_world =
             (Inr True, ?w1)"
    by (simp add: ensure_bucket_def bucket_exists_def make_bucket_def request_def
        lossy_world_def example_world_def BUCKET_NAME_def)
  have n: "length (case fst (gen_tasks [JString ''s1'', JString ''s2''] ?w1) of
                     Inr ts \<Rightarrow> ts | Inl e \<Rightarrow> []) = 19"
    by code_simp
  have p: "put_calls lossy_world = []"
    by (simp add: put_calls_def lossy_world_def example_world_def)
  have d: "dec_nat 18 = ''18''" "dec_nat 19 = ''19''"
    by (simp_all add: dec_nat.simps digit_char_def)
  from attempts_equal_tasks [OF h1 h2 h3' h4, of "\<lambda>v. []"] obtain tasks results w1 w2 w3 where
    e: "ensure_bucket (create_minio_client (environ lossy_world)) lossy_world = (Inr True, w1)"
    and t: "gen_tasks [JString ''s1'', JString ''s2''] w1 = (Inr tasks, w2)"
    and m: "main (\<lambda>v. []) lossy_world =
        (Inr (), print (completed_line (length (filter (\<lambda>r. r) results)) (length tasks)) w3)"
    and out: "stdout (snd (main (\<lambda>v. []) lossy_world)) =
        stdout w3 @
        [[CHR 0x0A] @ ''Completed: '' @ dec_nat (length (filter (\<lambda>r. r) results)) @ ''/'' @
         dec_nat (length tasks) @ '' files uploaded'']"
    and a: "length (put_calls (snd (main (\<lambda>v. []) lossy_world))) =
              length (put_calls lossy_world) + length tasks"
    and r: "results = outcomes (length tasks) (drop 2 (faults lossy_world))"
    by blast
  from e g have "w1 = ?w1" by simp
  with t n have lt: "length tasks = 19" by simp
  with r f have "results = outcomes 19 [Some ''timed out'']" by simp
  then have "length (filter (\<lambda>r. r) results) = 18" by (simp add: outcomes_def)
  with out lt d have "last (stdout (snd (main (\<lambda>v. []) lossy_world))) =
     CHR 0x0A # ''Completed: 18/19 files uploaded''"
    by simp
  with a p m h1 h2 h3 h4 lt show ?thesis by simp
qed

lemma payload_put_of:
  "map put_payload (map (put_of str_of) ts) = replicate (length ts) (Some ''test'')"
  by (induction ts) (simp_all add: put_of_def split_beta)

lemma main_calls:
  "\<exists>cs ts. calls (snd (main str_of w)) = calls w @ cs @ map (put_of str_of) ts \<and>
      filter is_put cs = []"
proof -
  let ?c = "create_minio_client (environ w)"
  let ?g = "ensure_bucket ?c w"
  from ensure_bucket_calls [of ?c w] obtain cs where
    cs: "calls (snd ?g) = calls w @ cs" and np: "filter is_put cs = []"
    by blast
  have e: "filter is_put ([] :: call list) = []" by simp
  show ?thesis
  proof (cases "\<exists>sensors. load_sensors w = Inr sensors \<and> \<not> invalid_config w ?c \<and>
                  fst ?g = Inr True")
    case True
    then obtain sensors where l: "load_sensors w = Inr sensors"
      and i: "\<not> invalid_config w ?c" and t: "fst ?g = Inr True"
      by blast
    from main_proceeds [OF l i t, of str_of] obtain tasks w2 where
      o: "only_rng (snd ?g) w2"
      and m: "main str_of w =
        (Inr (), print (completed_line
                   (length (filter (\<lambda>r. r) (fst (run_pool str_of ?c tasks w2))))
                   (length tasks))
                  (snd (run_pool str_of ?c tasks w2)))"
      by blast
    from run_pool_calls [of tasks str_of ?c w2] obtain ts where
      c: "calls (snd (run_pool str_of ?c tasks w2)) = calls w2 @ map (put_of str_of) ts"
      by blast
    from o have "calls w2 = calls (snd ?g)" by (rule only_rng_fields)
    with m c cs have "calls (snd (main str_of w)) = calls w @ cs @ map (put_of str_of) ts"
      by (simp add: print_calls)
    with np show ?thesis by blast
  next
    case False
    then have "load_sensors w = Inl (case load_sensors w of Inl x \<Rightarrow> x | Inr y \<Rightarrow> TypeError) \<or>
        invalid_config w ?c \<or> fst ?g \<noteq> Inr True"
      by (cases "load_sensors w") auto
    from main_stops [OF this, of str_of]
    have "snd (main str_of w) = w \<or> snd (main str_of w) = snd ?g" .
    then show ?thesis
    proof
      assume "snd (main str_of w) = w"
      then have "calls (snd (main str_of w)) = calls w @ [] @ map (put_of str_of) []"
        by simp
      with e show ?thesis by blast
    next
      assume "snd (main str_of w) = snd ?g"
      with cs have "calls (snd (main str_of w)) = calls w @ cs @ map (put_of str_of) []"
        by simp
      with np show ?thesis by blast
    qed
  qed
qed

text \<open>
  C10. Every \<open>put_object\<close> that a run of \<open>main\<close> issues asks the server to store the
  same payload, the four bytes \<open>test\<close> (116, 101, 115, 116 in ASCII), and so does the
  upload of any single task.
\<close>

theorem payload_is_test:
  "\<exists>new. calls (snd (main str_of w)) = calls w @ new \<and>
      map put_payload (filter is_put new) =
        replicate (length (filter is_put new)) (Some ''test'') \<and>
      map put_payload (filter is_put (calls (snd (upload_single str_of client sensor_id year month w)))) =
        map put_payload (filter is_put (calls w)) @ [Some ''test''] \<and>
      map of_char ''test'' = [116, 101, 115, 116 :: nat] \<and>
      length ''test'' = 4"
proof -
  from main_calls [of str_of w] obtain cs ts where
    c: "calls (snd (main str_of w)) = calls w @ cs @ map (put_of str_of) ts"
    and np: "filter is_put cs = []"
    by blast
  from np have f: "filter is_put (cs @ map (put_of str_of) ts) = map (put_of str_of) ts"
    by (simp add: filter_put_of)
  have "map put_payload (filter is_put (cs @ map (put_of str_of) ts)) =
        replicate (length (filter is_put (cs @ map (put_of str_of) ts))) (Some ''test'')"
    unfolding f using payload_put_of [of str_of ts] by simp
  moreover have "map put_payload (filter is_put
        (calls (snd (upload_single str_of client sensor_id year month w)))) =
        map put_payload (filter is_put (calls w)) @ [Some ''test'']"
    by (simp add: upload_single_calls put_of_def)
  moreover have "map of_char ''test'' = [116, 101, 115, 116 :: nat]" by simp
  ultimately show ?thesis using c by auto
qed

subsection \<open>Repeated identifiers\<close>

lemma id_of_has_id: "id_of item = Some v \<Longrightarrow> has_id item"
  by (cases item) simp_all

lemma count_ids:
  assumes "map Some sensors = map id_of (filter has_id items)"
  shows "count_list sensors v = length (filter (\<lambda>item. id_of item = Some v) items)"
proof -
  have "count_list sensors v = length (filter ((=) v) sensors)"
    by (rule count_list_eq_length_filter)
  also have "\<dots> = length (filter (\<lambda>x. x = Some v) (map Some sensors))"
    by (induction sensors) auto
  also have "\<dots> = length (filter (\<lambda>x. x = Some v) (map id_of (filter has_id items)))"
    by (simp only: assms)
  also have "\<dots> = length (filter (\<lambda>item. id_of item = Some v \<and> has_id item) items)"
    by (simp add: filter_map comp_def conj_commute)
  also have "(\<lambda>item. id_of item = Some v \<and> has_id item) = (\<lambda>item. id_of item = Some v)"
    by (auto dest: id_of_has_id)
  finally show ?thesis .
qed

lemma product_count:
  "length (filter (\<lambda>p. fst p = v) (List.product sensors YEARS)) = 4 * count_list sensors v"
  by (induction sensors) (simp_all add: YEARS_def)

lemma block_count:
  assumes "block_ok s y b"
  shows "length (filter (\<lambda>t. fst t = v) b) = (if s = v then length b else 0)"
proof -
  from assms have a: "\<forall>t\<in>set b. fst t = s" by (simp add: block_ok_def list_all_iff)
  show ?thesis
  proof (cases "s = v")
    case True
    with a have "filter (\<lambda>t. fst t = v) b = b" by (simp add: filter_id_conv)
    with True show ?thesis by simp
  next
    case False
    with a have "filter (\<lambda>t. fst t = v) b = []" by (simp add: filter_empty_conv)
    with False show ?thesis by simp
  qed
qed

lemma blocks_count:
  assumes "list_all2 (\<lambda>(s, y) b. block_ok s y b) ps blocks"
  shows "2 * length (filter (\<lambda>p. fst p = v) ps) \<le> length (filter (\<lambda>t. fst t = v) (concat blocks)) \<and>
         length (filter (\<lambda>t. fst t = v) (concat blocks)) \<le> 4 * length (filter (\<lambda>p. fst p = v) ps)"
  using assms
proof (induction rule: list_all2_induct)
  case Nil
  then show ?case by simp
next
  case (Cons p ps b blocks)
  obtain s y where p: "p = (s, y)" by (cases p)
  with Cons.hyps(1) have ok: "block_ok s y b" by simp
  then have "2 \<le> length b" and "length b \<le> 4" by (simp_all add: block_ok_def)
  with block_count [OF ok, of v] Cons.IH p show ?case by auto
qed

lemma length_update_present:
  "k \<in> fst ` set al \<Longrightarrow> length (AList.update k v al) = length al"
  by (induction al) auto

lemma upload_single_overwrites:
  assumes "buckets w BUCKET_NAME = Some objs"
    and "map_of objs (filename_of str_of s y m) \<noteq> None"
    and "fst (upload_single str_of client s y m w)"
  shows "\<exists>objs'. buckets (snd (upload_single str_of client s y m w)) BUCKET_NAME = Some objs' \<and>
           length objs' = length objs"
proof -
  from upload_single_stored [OF assms(3)] assms(1)
  have b: "buckets (snd (upload_single str_of client s y m w)) =
             (buckets w)(BUCKET_NAME \<mapsto>
                AList.update (filename_of str_of s y m)
                  \<lparr>body = ''test'', content_type = ''text/csv''\<rparr> objs)"
    by simp
  from assms(2) have "filename_of str_of s y m \<in> fst ` set objs"
    by (simp add: map_of_eq_None_iff)
  then have "length (AList.update (filename_of str_of s y m)
                  \<lparr>body = ''test'', content_type = ''text/csv''\<rparr> objs) = length objs"
    by (rule length_update_present)
  with b show ?thesis by simp
qed

lemma twin_tasks:
  "\<exists>tasks w2. gen_tasks [JString ''s1'', JString ''s1''] twin_world = (Inr tasks, w2) \<and>
      \<not> distinct tasks"
proof -
  have "\<not> distinct (case fst (gen_tasks [JString ''s1'', JString ''s1''] twin_world) of
                       Inr ts \<Rightarrow> ts | Inl e \<Rightarrow> [])"
    by code_simp
  moreover obtain blocks w2 where
    "gen_tasks [JString ''s1'', JString ''s1''] twin_world = (Inr (concat blocks), w2)"
    using gen_tasks_blocks [of "[JString ''s1'', JString ''s1'']" twin_world] by blast
  ultimately show ?thesis by auto
qed

lemma twin_load: "load_sensors twin_world = Inr [JString ''s1'', JString ''s1'']"
  by (simp add: load_sensors_def twin_world_def twin_items_def)

text \<open>
  C9. The loader does not deduplicate. For a sensors file that is an array of records, a
  value \<open>v\<close> is in the sensor list as many times as there are records whose \<open>id\<close> is
  \<open>v\<close>. The generator makes a block of tasks for every entry of the list and every
  year, so \<open>v\<close> gets between 8 and 16 tasks for each of its occurrences. Tasks can then
  share an object name: with the id \<open>s1\<close> in two records and a generator that repeats
  its draws, the \<open>put_object\<close> calls of the tasks are not pairwise distinct. An upload
  to a name that the bucket already holds replaces the object, and the bucket has as
  many objects as before.
\<close>

theorem no_deduplication:
  assumes "sensors_file w = Parsed (JArray items)" and "list_all is_record items"
  shows "\<exists>sensors blocks w2.
      load_sensors w = Inr sensors \<and>
      count_list sensors v = length (filter (\<lambda>item. id_of item = Some v) items) \<and>
      gen_tasks sensors w1 = (Inr (concat blocks), w2) \<and>
      list_all2 (\<lambda>(s, y) b. block_ok s y b) (List.product sensors YEARS) blocks \<and>
      8 * count_list sensors v \<le> length (filter (\<lambda>t. fst t = v) (concat blocks)) \<and>
      length (filter (\<lambda>t. fst t = v) (concat blocks)) \<le> 16 * count_list sensors v \<and>
      (\<exists>twins tasks w3. load_sensors twin_world = Inr twins \<and>
          gen_tasks twins twin_world = (Inr tasks, w3) \<and>
          \<not> distinct (map (put_of str_of) tasks)) \<and>
      (buckets w4 BUCKET_NAME = Some objs \<and>
       map_of objs (filename_of str_of s y m) \<noteq> None \<and>
       fst (upload_single str_of client s y m w4) \<longrightarrow>
         (\<exists>objs'. buckets (snd (upload_single str_of client s y m w4)) BUCKET_NAME = Some objs' \<and>
            length objs' = length objs))"
proof -
  from collect_ids_records [OF assms(2)] obtain sensors
    where c: "collect_ids items = Inr sensors"
      and m: "map Some sensors = map id_of (filter has_id items)"
    by blast
  from c assms(1) have l: "load_sensors w = Inr sensors" by (simp add: load_sensors_def)
  from m have n: "count_list sensors v = length (filter (\<lambda>item. id_of item = Some v) items)"
    by (rule count_ids)
  from gen_tasks_blocks [of sensors w1] obtain blocks w2 where
    g: "gen_tasks sensors w1 = (Inr (concat blocks), w2)"
    and a: "list_all2 (\<lambda>(s, y) b. block_ok s y b) (List.product sensors YEARS) blocks"
    by blast
  from blocks_count [OF a, of v] product_count [of v sensors]
  have lo: "8 * count_list sensors v \<le> length (filter (\<lambda>t. fst t = v) (concat blocks))"
    and hi: "length (filter (\<lambda>t. fst t = v) (concat blocks)) \<le> 16 * count_list sensors v"
    by simp_all
  from twin_tasks obtain tasks w3 where
    t: "gen_tasks [JString ''s1'', JString ''s1''] twin_world = (Inr tasks, w3)"
    and d: "\<not> distinct tasks"
    by blast
  from d have "\<not> distinct (map (put_of str_of) tasks)" by (simp add: distinct_map)
  with t twin_load have tw: "\<exists>twins tasks w3. load_sensors twin_world = Inr twins \<and>
          gen_tasks twins twin_world = (Inr tasks, w3) \<and>
          \<not> distinct (map (put_of str_of) tasks)"
    by blast
  have ov: "buckets w4 BUCKET_NAME = Some objs \<and>
       map_of objs (filename_of str_of s y m) \<noteq> None \<and>
       fst (upload_single str_of client s y m w4) \<longrightarrow>
         (\<exists>objs'. buckets (snd (upload_single str_of client s y m w4)) BUCKET_NAME = Some objs' \<and>
            length objs' = length objs)"
    using upload_single_overwrites [of w4 objs str_of s y m client] by blast
  from l n g a lo hi tw ov show ?thesis by blast
qed

theorem no_deduplication_witness:
  "sensors_file twin_world = Parsed (JArray twin_items) \<and>
   list_all is_record twin_items \<and>
   load_sensors twin_world = Inr [JString ''s1'', JString ''s1''] \<and>
   length (filter (\<lambda>item. id_of item = Some (JString ''s1'')) twin_items) = 2 \<and>
   count_list [JString ''s1'', JString ''s1''] (JString ''s1'') = 2"
proof -
  have f: "sensors_file twin_world = Parsed (JArray twin_items)"
    by (simp add: twin_world_def)
  have r: "list_all is_record twin_items"
    by (simp add: twin_items_def)
  have k: "length (filter (\<lambda>item. id_of item = Some (JString ''s1'')) twin_items) = 2"
    by (simp add: twin_items_def)
  from no_deduplication [OF f r, of "JString ''s1''"] obtain sensors where
    l: "load_sensors twin_world = Inr sensors"
    and c: "count_list sensors (JString ''s1'') =
            length (filter (\<lambda>item. id_of item = Some (JString ''s1'')) twin_items)"
    by blast
  from l twin_load have "sensors = [JString ''s1'', JString ''s1'']" by simp
  with c k f r twin_load show ?thesis by simp
qed

end
